theory Spec2Isabelle
  imports Main
begin

section \<open>Data model\<close>

text \<open>
  The Go struct \<open>Match\<close> (models.go) and the rows of the table \<open>epl_matches\<close>.
  Pointer fields (\<open>*float64\<close>, \<open>*int\<close>, \<open>*string\<close>) and nullable columns are options.
  Odds and money are \<open>DECIMAL(_, 2)\<close> columns: they are counted in hundredths, and the
  rounding of a \<open>float64\<close> to the column type is not part of the model.
  \<open>CommenceTime\<close> is counted from Go's zero time, so \<open>IsZero\<close> is \<open>= 0\<close>.
  The surrogate key \<open>id\<close> and the columns \<open>created_at\<close>, \<open>updated_at\<close> are written by
  the database only and read by none of the functions below; they are left out.
\<close>

record Match =
  APIID :: string
  HomeTeam :: string
  AwayTeam :: string
  CommenceTime :: int
  HomeOdds :: "int option"
  DrawOdds :: "int option"
  AwayOdds :: "int option"
  Completed :: bool
  HomeScore :: "int option"
  AwayScore :: "int option"
  Calculated :: bool
  Result :: "string option"

text \<open>Rows of the table \<open>bets\<close>; \<open>status\<close> is the only nullable column that is used.\<close>

record Bet =
  bet_id :: string
  user_id :: string
  match_id :: string
  bet_type :: string
  bet_amount :: int
  odds :: int
  potential_win :: int
  status :: "string option"

text \<open>
  Rows of the table \<open>users\<close>: the key and the balance. Both inserts of the
  repository (\<open>CreateUser\<close>, \<open>CreateUserWithGoogle\<close>) give \<open>money\<close> a value, so the
  balance is not an option.
\<close>

record User =
  users_id :: string
  money :: int

datatype error =
  IOError | ErrNoRows | UniqueViolation | ConfigError | FetchFailed | BadStatus nat
  | DecodeError

text \<open>
  The store: the three tables, and the schedule of store failures still to come.
  Every call to the database (\<open>QueryRow\<close>, \<open>Query\<close>, \<open>Exec\<close>, \<open>Begin\<close>, \<open>Commit\<close>)
  takes the head of \<open>faults\<close>: \<open>True\<close> makes that call fail with an I/O error and
  no effect. An empty schedule means that no further call fails.
\<close>

record store =
  epl_matches :: "Match list"
  bets :: "Bet list"
  users :: "User list"
  faults :: "bool list"

definition store_call :: "store \<Rightarrow> bool \<times> store" where
  "store_call s =
     (case faults s of [] \<Rightarrow> (False, s) | f # fs \<Rightarrow> (f, s\<lparr>faults := fs\<rparr>))"

section \<open>Match store (database layer)\<close>

definition GetMatchByAPIID :: "string \<Rightarrow> store \<Rightarrow> (error + Match) \<times> store" where
  "GetMatchByAPIID apiID s =
     (case store_call s of
        (True, s1) \<Rightarrow> (Inl IOError, s1)
      | (False, s1) \<Rightarrow>
          (case find (\<lambda>m. APIID m = apiID) (epl_matches s1) of
             None \<Rightarrow> (Inl ErrNoRows, s1)
           | Some m \<Rightarrow> (Inr m, s1)))"

text \<open>
  The dynamic \<open>SET\<close> list of \<open>UpdateMatchByAPIID\<close>: a column is assigned when the
  incoming field is not the empty string, not the zero time, not nil;
  \<open>completed\<close> is assigned always.
\<close>

definition merge_row :: "Match \<Rightarrow> Match \<Rightarrow> Match" where
  "merge_row match row = row
     \<lparr> HomeTeam := (if HomeTeam match \<noteq> [] then HomeTeam match else HomeTeam row),
       AwayTeam := (if AwayTeam match \<noteq> [] then AwayTeam match else AwayTeam row),
       CommenceTime :=
         (if CommenceTime match \<noteq> 0 then CommenceTime match else CommenceTime row),
       HomeOdds := (case HomeOdds match of Some v \<Rightarrow> Some v | None \<Rightarrow> HomeOdds row),
       DrawOdds := (case DrawOdds match of Some v \<Rightarrow> Some v | None \<Rightarrow> DrawOdds row),
       AwayOdds := (case AwayOdds match of Some v \<Rightarrow> Some v | None \<Rightarrow> AwayOdds row),
       HomeScore := (case HomeScore match of Some v \<Rightarrow> Some v | None \<Rightarrow> HomeScore row),
       AwayScore := (case AwayScore match of Some v \<Rightarrow> Some v | None \<Rightarrow> AwayScore row),
       Completed := Completed match \<rparr>"

definition UpdateMatchByAPIID ::
  "string \<Rightarrow> Match \<Rightarrow> store \<Rightarrow> (error + Match) \<times> store" where
  "UpdateMatchByAPIID apiID match s =
     (case store_call s of
        (True, s1) \<Rightarrow> (Inl IOError, s1)
      | (False, s1) \<Rightarrow>
          (let rows = map (\<lambda>r. if APIID r = apiID then merge_row match r else r)
                          (epl_matches s1)
           in case find (\<lambda>m. APIID m = apiID) rows of
                None \<Rightarrow> (Inl ErrNoRows, s1)
              | Some m \<Rightarrow> (Inr m, s1\<lparr>epl_matches := rows\<rparr>)))"

text \<open>
  The \<open>INSERT\<close> of \<open>UpsertMatch\<close>: a nil score is stored as \<open>-1\<close>; the column
  \<open>api_id\<close> is \<open>UNIQUE\<close>, so a second row with the same key is refused.
\<close>

definition insert_row :: "Match \<Rightarrow> Match" where
  "insert_row match = match
     \<lparr> HomeScore := Some (case HomeScore match of None \<Rightarrow> - 1 | Some h \<Rightarrow> h),
       AwayScore := Some (case AwayScore match of None \<Rightarrow> - 1 | Some a \<Rightarrow> a) \<rparr>"

definition UpsertMatch :: "Match \<Rightarrow> store \<Rightarrow> (error + Match) \<times> store" where
  "UpsertMatch match s =
     (case GetMatchByAPIID (APIID match) s of
        (Inr existingMatch, s1) \<Rightarrow> UpdateMatchByAPIID (APIID match) match s1
      | (Inl e, s1) \<Rightarrow>
          (case store_call s1 of
             (True, s2) \<Rightarrow> (Inl IOError, s2)
           | (False, s2) \<Rightarrow>
               if \<exists>r \<in> set (epl_matches s2). APIID r = APIID match
               then (Inl UniqueViolation, s2)
               else (Inr (insert_row match),
                     s2\<lparr>epl_matches := epl_matches s2 @ [insert_row match]\<rparr>)))"

definition is_candidate :: "Match \<Rightarrow> bool" where
  "is_candidate m \<longleftrightarrow>
     Completed m \<and> \<not> Calculated m \<and> HomeScore m \<noteq> None \<and> AwayScore m \<noteq> None
     \<and> HomeScore m \<noteq> Some (- 1) \<and> AwayScore m \<noteq> Some (- 1)"

definition GetCompletedUncalculatedMatches :: "store \<Rightarrow> (error + Match list) \<times> store" where
  "GetCompletedUncalculatedMatches s =
     (case store_call s of
        (True, s1) \<Rightarrow> (Inl IOError, s1)
      | (False, s1) \<Rightarrow> (Inr (filter is_candidate (epl_matches s1)), s1))"

text \<open>\<open>UPDATE epl_matches SET calculated = TRUE, result = $1 WHERE api_id = $2\<close>\<close>

definition mark_calculated :: "string \<Rightarrow> string \<Rightarrow> Match \<Rightarrow> Match" where
  "mark_calculated apiID result r =
     (if APIID r = apiID then r\<lparr>Calculated := True, Result := Some result\<rparr> else r)"

definition UpdateMatchCalculated ::
  "string \<Rightarrow> string \<Rightarrow> store \<Rightarrow> (error + unit) \<times> store" where
  "UpdateMatchCalculated apiID result s =
     (case store_call s of
        (True, s1) \<Rightarrow> (Inl IOError, s1)
      | (False, s1) \<Rightarrow>
          (Inr (), s1\<lparr>epl_matches := map (mark_calculated apiID result) (epl_matches s1)\<rparr>))"

subsection \<open>The settlement transaction\<close>

text \<open>
  \<open>UPDATE bets SET status = CASE WHEN bet_type = $1 THEN 'won' ELSE 'lost' END
   WHERE match_id = $2 AND status = 'pending' RETURNING user_id, potential_win, status\<close>
\<close>

definition is_pending_on :: "string \<Rightarrow> Bet \<Rightarrow> bool" where
  "is_pending_on matchAPIID b \<longleftrightarrow> match_id b = matchAPIID \<and> status b = Some ''pending''"

definition new_status :: "string \<Rightarrow> Bet \<Rightarrow> string" where
  "new_status result b = (if bet_type b = result then ''won'' else ''lost'')"

definition settle_bet :: "string \<Rightarrow> string \<Rightarrow> Bet \<Rightarrow> Bet" where
  "settle_bet matchAPIID result b =
     (if is_pending_on matchAPIID b then b\<lparr>status := Some (new_status result b)\<rparr> else b)"

definition tx_update_bets ::
  "string \<Rightarrow> string \<Rightarrow> store \<Rightarrow> (error + (string \<times> int \<times> string) list) \<times> store" where
  "tx_update_bets matchAPIID result t =
     (case store_call t of
        (True, t1) \<Rightarrow> (Inl IOError, t1)
      | (False, t1) \<Rightarrow>
          (Inr (map (\<lambda>b. (user_id b, potential_win b, new_status result b))
                    (filter (is_pending_on matchAPIID) (bets t1))),
           t1\<lparr>bets := map (settle_bet matchAPIID result) (bets t1)\<rparr>))"

text \<open>\<open>UPDATE users SET money = money + $1 WHERE id = $2\<close>\<close>

definition credit :: "string \<Rightarrow> int \<Rightarrow> User list \<Rightarrow> User list" where
  "credit userID potentialWin us =
     map (\<lambda>u. if users_id u = userID then u\<lparr>money := money u + potentialWin\<rparr> else u) us"

fun credit_winners :: "(string \<times> int) list \<Rightarrow> store \<Rightarrow> (error + unit) \<times> store" where
  "credit_winners [] t = (Inr (), t)"
| "credit_winners ((userID, potentialWin) # ws) t =
     (case store_call t of
        (True, t1) \<Rightarrow> (Inl IOError, t1)
      | (False, t1) \<Rightarrow> credit_winners ws (t1\<lparr>users := credit userID potentialWin (users t1)\<rparr>))"

text \<open>
  \<open>tx.Rollback\<close>, deferred: the tables go back to what they were at \<open>Begin\<close>;
  the failures consumed meanwhile stay consumed. It runs on every return before a
  successful \<open>Commit\<close>; a \<open>Commit\<close> that fails is taken to have applied nothing.
\<close>

definition rollback :: "store \<Rightarrow> store \<Rightarrow> store" where
  "rollback s0 t = t\<lparr>epl_matches := epl_matches s0, bets := bets s0, users := users s0\<rparr>"

definition winning_bets :: "(string \<times> int \<times> string) list \<Rightarrow> (string \<times> int) list" where
  "winning_bets rows = map (\<lambda>(u, w, st). (u, w)) (filter (\<lambda>(u, w, st). st = ''won'') rows)"

definition UpdateBetsStatusAndUserMoney ::
  "string \<Rightarrow> string \<Rightarrow> store \<Rightarrow> (error + unit) \<times> store" where
  "UpdateBetsStatusAndUserMoney matchAPIID result s =
     (case store_call s of
        (True, s0) \<Rightarrow> (Inl IOError, s0)
      | (False, s0) \<Rightarrow>
          (case tx_update_bets matchAPIID result s0 of
             (Inl e, t1) \<Rightarrow> (Inl e, rollback s0 t1)
           | (Inr rows, t1) \<Rightarrow>
               (case credit_winners (winning_bets rows) t1 of
                  (Inl e, t2) \<Rightarrow> (Inl e, rollback s0 t2)
                | (Inr _, t2) \<Rightarrow>
                    (case store_call t2 of
                       (True, t3) \<Rightarrow> (Inl IOError, rollback s0 t3)
                     | (False, t3) \<Rightarrow> (Inr (), t3)))))"

section \<open>Outcome settler (\<open>calcHandler\<close>)\<close>

definition match_result :: "int \<Rightarrow> int \<Rightarrow> string" where
  "match_result homeScore awayScore =
     (if homeScore > awayScore then ''home''
      else if homeScore < awayScore then ''away''
      else ''draw'')"

text \<open>One entry of \<open>calculatedMatches\<close>; the score is kept as the two integers.\<close>

record calculated_match =
  cm_home_team :: string
  cm_away_team :: string
  cm_score :: "int \<times> int"
  cm_result :: string

text \<open>The body of the loop over the selected matches; \<open>continue\<close> returns the summary as it is.\<close>

definition calc_match ::
  "Match \<Rightarrow> (nat \<times> calculated_match list) \<times> store \<Rightarrow> (nat \<times> calculated_match list) \<times> store"
  where
  "calc_match match acc =
     (case acc of ((updatedCount, calculatedMatches), s) \<Rightarrow>
        (case (HomeScore match, AwayScore match) of
           (Some h, Some a) \<Rightarrow>
             (let result = match_result h a in
              case UpdateBetsStatusAndUserMoney (APIID match) result s of
                (Inl e, s1) \<Rightarrow> ((updatedCount, calculatedMatches), s1)
              | (Inr _, s1) \<Rightarrow>
                  (case UpdateMatchCalculated (APIID match) result s1 of
                     (Inl e, s2) \<Rightarrow> ((updatedCount, calculatedMatches), s2)
                   | (Inr _, s2) \<Rightarrow>
                       ((updatedCount + 1,
                         calculatedMatches @
                           [\<lparr>cm_home_team = HomeTeam match, cm_away_team = AwayTeam match,
                             cm_score = (h, a), cm_result = result\<rparr>]),
                        s2)))
         | _ \<Rightarrow> ((updatedCount, calculatedMatches), s)))"

definition calc_loop ::
  "Match list \<Rightarrow> (nat \<times> calculated_match list) \<times> store \<Rightarrow> (nat \<times> calculated_match list) \<times> store"
  where
  "calc_loop matches acc = fold calc_match matches acc"

text \<open>
  \<open>calcHandler\<close>, for an authenticated admin. The Telegram notification that follows
  the loop reads the summary and writes nothing to the store.
\<close>

definition calcHandler :: "store \<Rightarrow> (error + nat \<times> calculated_match list) \<times> store" where
  "calcHandler s =
     (case GetCompletedUncalculatedMatches s of
        (Inl e, s1) \<Rightarrow> (Inl e, s1)
      | (Inr matches, s1) \<Rightarrow>
          if matches = [] then (Inr (0, []), s1)
          else (case calc_loop matches ((0, []), s1) of (summary, s2) \<Rightarrow> (Inr summary, s2)))"

section \<open>Feed client\<close>

text \<open>
  The feed's structs (\<open>OddsAPIEvent\<close>, \<open>ScoresAPIEvent\<close>). A record of the response
  body either decodes to the struct or is refused by \<open>json.Decoder.Decode\<close>, as a
  \<open>commence_time\<close> that is no RFC 3339 timestamp is by \<open>time.Time\<close>.
\<close>

record Outcome =
  oc_Name :: string
  oc_Price :: int

record Market =
  mk_Key :: string
  mk_Outcomes :: "Outcome list"

record Bookmaker =
  bm_Key :: string
  bm_Title :: string
  bm_Markets :: "Market list"

record OddsAPIEvent =
  oe_ID :: string
  oe_SportKey :: string
  oe_CommenceTime :: int
  oe_HomeTeam :: string
  oe_AwayTeam :: string
  oe_Bookmakers :: "Bookmaker list"

record ScoreEntry =
  se_Name :: string
  se_Score :: string

record ScoresAPIEvent =
  sc_ID :: string
  sc_SportKey :: string
  sc_CommenceTime :: int
  sc_HomeTeam :: string
  sc_AwayTeam :: string
  sc_Completed :: bool
  sc_Scores :: "ScoreEntry list"

datatype 'e json_record = Decodes 'e | Malformed

datatype 'e http_reply = NoReply | Reply nat "'e json_record list"

text \<open>Decoding the array into the slice: one refused element fails the whole call.\<close>

fun decode_events :: "'e json_record list \<Rightarrow> 'e list option" where
  "decode_events [] = Some []"
| "decode_events (Malformed # rs) = None"
| "decode_events (Decodes e # rs) =
     (case decode_events rs of None \<Rightarrow> None | Some es \<Rightarrow> Some (e # es))"

definition fetch_events :: "string \<Rightarrow> 'e http_reply \<Rightarrow> error + 'e list" where
  "fetch_events apiKey reply =
     (if apiKey = [] then Inl ConfigError
      else case reply of
             NoReply \<Rightarrow> Inl FetchFailed
           | Reply code body \<Rightarrow>
               if code \<noteq> 200 then Inl (BadStatus code)
               else (case decode_events body of
                       None \<Rightarrow> Inl DecodeError
                     | Some events \<Rightarrow> Inr events))"

definition fetchOddsFromAPI ::
  "string \<Rightarrow> OddsAPIEvent http_reply \<Rightarrow> error + OddsAPIEvent list" where
  "fetchOddsFromAPI = fetch_events"

definition fetchScoresFromAPI ::
  "string \<Rightarrow> ScoresAPIEvent http_reply \<Rightarrow> error + ScoresAPIEvent list" where
  "fetchScoresFromAPI = fetch_events"

section \<open>Event normalizer\<close>

definition empty_match :: "string \<Rightarrow> string \<Rightarrow> string \<Rightarrow> int \<Rightarrow> bool \<Rightarrow> Match" where
  "empty_match apiID home away t completed =
     \<lparr>APIID = apiID, HomeTeam = home, AwayTeam = away, CommenceTime = t,
      HomeOdds = None, DrawOdds = None, AwayOdds = None, Completed = completed,
      HomeScore = None, AwayScore = None, Calculated = False, Result = None\<rparr>"

text \<open>
  The loop over the outcomes of the first market of the first bookmaker. Each pointer
  is taken to read the price of the outcome that set it (the loop variable of each
  iteration is its own, as from Go 1.22 on); the theorems below use only whether a
  pointer is nil.
\<close>

definition odds_outcome :: "OddsAPIEvent \<Rightarrow> Outcome \<Rightarrow> Match \<Rightarrow> Match" where
  "odds_outcome event outcome match =
     (if oc_Name outcome = oe_HomeTeam event then match\<lparr>HomeOdds := Some (oc_Price outcome)\<rparr>
      else if oc_Name outcome = oe_AwayTeam event
        then match\<lparr>AwayOdds := Some (oc_Price outcome)\<rparr>
      else if oc_Name outcome = ''Draw'' then match\<lparr>DrawOdds := Some (oc_Price outcome)\<rparr>
      else match)"

definition processOddsEvent :: "OddsAPIEvent \<Rightarrow> Match" where
  "processOddsEvent event =
     (let match = empty_match (oe_ID event) (oe_HomeTeam event) (oe_AwayTeam event)
                    (oe_CommenceTime event) False
      in case oe_Bookmakers event of
           [] \<Rightarrow> match
         | b # _ \<Rightarrow>
             (case bm_Markets b of
                [] \<Rightarrow> match
              | m # _ \<Rightarrow> fold (odds_outcome event) (mk_Outcomes m) match))"

text \<open>
  \<open>strconv.Atoi\<close>: an optional sign, then one or more decimal digits, within the
  range of a 64-bit \<open>int\<close>.
\<close>

definition digit_val :: "char \<Rightarrow> nat option" where
  "digit_val c =
     (let n = (of_char c :: nat) in if 48 \<le> n \<and> n \<le> 57 then Some (n - 48) else None)"

fun parse_digits :: "nat \<Rightarrow> string \<Rightarrow> nat option" where
  "parse_digits n [] = Some n"
| "parse_digits n (c # cs) =
     (case digit_val c of None \<Rightarrow> None | Some d \<Rightarrow> parse_digits (n * 10 + d) cs)"

definition Atoi :: "string \<Rightarrow> int option" where
  "Atoi s =
     (case s of
        [] \<Rightarrow> None
      | c # cs \<Rightarrow>
          (let digits = (if c = CHR ''-'' \<or> c = CHR ''+'' then cs else s)
           in if digits = [] then None
              else (case parse_digits 0 digits of
                      None \<Rightarrow> None
                    | Some n \<Rightarrow>
                        (let v = (if c = CHR ''-'' then - int n else int n)
                         in if - (2 ^ 63) \<le> v \<and> v \<le> 2 ^ 63 - 1 then Some v else None))))"

definition score_entry :: "ScoresAPIEvent \<Rightarrow> ScoreEntry \<Rightarrow> int \<times> int \<Rightarrow> int \<times> int" where
  "score_entry event score hs =
     (case hs of (homeScore, awayScore) \<Rightarrow>
        if se_Name score = sc_HomeTeam event then
          (if se_Score score \<noteq> [] then
             (case Atoi (se_Score score) of
                Some v \<Rightarrow> (v, awayScore)
              | None \<Rightarrow> (homeScore, awayScore))
           else (homeScore, awayScore))
        else if se_Name score = sc_AwayTeam event then
          (if se_Score score \<noteq> [] then
             (case Atoi (se_Score score) of
                Some v \<Rightarrow> (homeScore, v)
              | None \<Rightarrow> (homeScore, awayScore))
           else (homeScore, awayScore))
        else (homeScore, awayScore))"

definition processScoreEvent :: "ScoresAPIEvent \<Rightarrow> Match" where
  "processScoreEvent event =
     (case fold (score_entry event) (sc_Scores event) (- 1, - 1) of
        (homeScore, awayScore) \<Rightarrow>
          (empty_match (sc_ID event) (sc_HomeTeam event) (sc_AwayTeam event)
             (sc_CommenceTime event) (sc_Completed event))
          \<lparr> HomeScore := (if homeScore \<noteq> - 1 then Some homeScore else None),
            AwayScore := (if awayScore \<noteq> - 1 then Some awayScore else None) \<rparr>)"

section \<open>Sync pipelines\<close>

record odds_results =
  created :: nat
  updated :: nat
  skipped :: nat

record scores_results =
  sr_created :: nat
  sr_updated :: nat

text \<open>The body of the loop of \<open>oddsSyncHandler\<close>.\<close>

definition odds_sync_event :: "OddsAPIEvent \<Rightarrow> odds_results \<times> store \<Rightarrow> odds_results \<times> store"
  where
  "odds_sync_event event acc =
     (case acc of (results, s) \<Rightarrow>
        (let match = processOddsEvent event in
         case GetMatchByAPIID (APIID match) s of
           (Inr existingMatch, s1) \<Rightarrow>
             (let match1 = match
                    \<lparr> HomeOdds := (if HomeOdds match = None then HomeOdds existingMatch
                                   else HomeOdds match),
                      DrawOdds := (if DrawOdds match = None then DrawOdds existingMatch
                                   else DrawOdds match),
                      AwayOdds := (if AwayOdds match = None then AwayOdds existingMatch
                                   else AwayOdds match) \<rparr>
              in case UpdateMatchByAPIID (APIID match1) match1 s1 of
                   (Inl e, s2) \<Rightarrow> (results, s2)
                 | (Inr _, s2) \<Rightarrow> (results\<lparr>updated := updated results + 1\<rparr>, s2))
         | (Inl e, s1) \<Rightarrow>
             if HomeOdds match = None \<or> DrawOdds match = None \<or> AwayOdds match = None
             then (results\<lparr>skipped := skipped results + 1\<rparr>, s1)
             else (case UpsertMatch match s1 of
                     (Inl e, s2) \<Rightarrow> (results, s2)
                   | (Inr _, s2) \<Rightarrow> (results\<lparr>created := created results + 1\<rparr>, s2))))"

text \<open>
  \<open>oddsSyncHandler\<close>, for an authenticated admin: the fetch, the early return for
  an empty list, the loop.
\<close>

definition oddsSyncHandler ::
  "string \<Rightarrow> OddsAPIEvent http_reply \<Rightarrow> store \<Rightarrow> (error + odds_results) \<times> store" where
  "oddsSyncHandler apiKey reply s =
     (case fetchOddsFromAPI apiKey reply of
        Inl e \<Rightarrow> (Inl e, s)
      | Inr events \<Rightarrow>
          if events = [] then (Inr \<lparr>created = 0, updated = 0, skipped = 0\<rparr>, s)
          else (case fold odds_sync_event events
                       (\<lparr>created = 0, updated = 0, skipped = 0\<rparr>, s) of
                  (results, s1) \<Rightarrow> (Inr results, s1)))"

text \<open>The body of the loop of \<open>scoresSyncHandler\<close>.\<close>

definition scores_sync_event ::
  "ScoresAPIEvent \<Rightarrow> scores_results \<times> store \<Rightarrow> scores_results \<times> store" where
  "scores_sync_event score acc =
     (case acc of (results, s) \<Rightarrow>
        (let match = processScoreEvent score in
         case GetMatchByAPIID (APIID match) s of
           (Inr existingMatch, s1) \<Rightarrow>
             (let match1 = match
                    \<lparr> HomeOdds := HomeOdds existingMatch,
                      DrawOdds := DrawOdds existingMatch,
                      AwayOdds := AwayOdds existingMatch \<rparr>
              in case UpdateMatchByAPIID (APIID match1) match1 s1 of
                   (Inl e, s2) \<Rightarrow> (results, s2)
                 | (Inr _, s2) \<Rightarrow> (results\<lparr>sr_updated := sr_updated results + 1\<rparr>, s2))
         | (Inl e, s1) \<Rightarrow>
             (let match1 = match\<lparr>HomeOdds := None, DrawOdds := None, AwayOdds := None\<rparr>
              in case UpsertMatch match1 s1 of
                   (Inl e, s2) \<Rightarrow> (results, s2)
                 | (Inr _, s2) \<Rightarrow> (results\<lparr>sr_created := sr_created results + 1\<rparr>, s2))))"

text \<open>\<open>scoresSyncHandler\<close>, for an authenticated admin.\<close>

definition scoresSyncHandler ::
  "string \<Rightarrow> ScoresAPIEvent http_reply \<Rightarrow> store \<Rightarrow> (error + scores_results) \<times> store" where
  "scoresSyncHandler apiKey reply s =
     (case fetchScoresFromAPI apiKey reply of
        Inl e \<Rightarrow> (Inl e, s)
      | Inr scores \<Rightarrow>
          if scores = [] then (Inr \<lparr>sr_created = 0, sr_updated = 0\<rparr>, s)
          else (case fold scores_sync_event scores (\<lparr>sr_created = 0, sr_updated = 0\<rparr>, s) of
                  (results, s1) \<Rightarrow> (Inr results, s1)))"

section \<open>The engine as a transition system\<close>

text \<open>
  One invocation of one of the three operations, each under a failure schedule of
  its own.
\<close>

inductive engine_step :: "store \<Rightarrow> store \<Rightarrow> bool" where
  odds_sync: "engine_step s (snd (oddsSyncHandler apiKey reply (s\<lparr>faults := fl\<rparr>)))"
| scores_sync: "engine_step s (snd (scoresSyncHandler apiKey reply (s\<lparr>faults := fl\<rparr>)))"
| settle: "engine_step s (snd (calcHandler (s\<lparr>faults := fl\<rparr>)))"

section \<open>Predicates used to state and prove the properties\<close>

definition settled_consistent :: "store \<Rightarrow> bool" where
  "settled_consistent s \<longleftrightarrow>
     (\<forall>m \<in> set (epl_matches s). Calculated m \<longrightarrow>
        Result m \<noteq> None \<and>
        (\<forall>b \<in> set (bets s). match_id b = APIID m \<longrightarrow> status b \<noteq> Some ''pending''))"

definition without_wagers_on :: "string \<Rightarrow> store \<Rightarrow> store" where
  "without_wagers_on a s = s\<lparr>bets := filter (\<lambda>b. match_id b \<noteq> a) (bets s)\<rparr>"

definition rows_grow :: "Match list \<Rightarrow> Match list \<Rightarrow> bool" where
  "rows_grow rows rows' \<longleftrightarrow>
     length rows \<le> length rows' \<and>
     (\<forall>i < length rows. APIID (rows' ! i) = APIID (rows ! i) \<and>
        Calculated (rows' ! i) = Calculated (rows ! i) \<and> Result (rows' ! i) = Result (rows ! i)) \<and>
     (\<forall>i. length rows \<le> i \<and> i < length rows' \<longrightarrow> \<not> Calculated (rows' ! i)) \<and>
     (distinct (map APIID rows) \<longrightarrow> distinct (map APIID rows'))"

definition calculated_kept :: "store \<Rightarrow> store \<Rightarrow> bool" where
  "calculated_kept s s' \<longleftrightarrow>
     (\<forall>i < length (epl_matches s). Calculated (epl_matches s ! i) \<longrightarrow>
        i < length (epl_matches s') \<and>
        APIID (epl_matches s' ! i) = APIID (epl_matches s ! i) \<and>
        Calculated (epl_matches s' ! i) \<and>
        Result (epl_matches s' ! i) = Result (epl_matches s ! i))"

section \<open>Example stores and feed records\<close>

definition ex_match :: Match where
  "ex_match = \<lparr>APIID = ''m1'', HomeTeam = ''Arsenal'', AwayTeam = ''Chelsea'', CommenceTime = 100,
     HomeOdds = Some 210, DrawOdds = Some 330, AwayOdds = Some 350, Completed = True,
     HomeScore = Some 2, AwayScore = Some 1, Calculated = False, Result = None\<rparr>"

definition ex_bets :: "Bet list" where
  "ex_bets =
     [\<lparr>bet_id = ''b1'', user_id = ''u1'', match_id = ''m1'', bet_type = ''home'',
       bet_amount = 1000, odds = 210, potential_win = 2100, status = Some ''pending''\<rparr>,
      \<lparr>bet_id = ''b2'', user_id = ''u2'', match_id = ''m1'', bet_type = ''draw'',
       bet_amount = 500, odds = 330, potential_win = 1650, status = Some ''pending''\<rparr>,
      \<lparr>bet_id = ''b3'', user_id = ''u1'', match_id = ''m2'', bet_type = ''home'',
       bet_amount = 100, odds = 150, potential_win = 150, status = Some ''pending''\<rparr>]"

definition ex_users :: "User list" where
  "ex_users = [\<lparr>users_id = ''u1'', money = 5000\<rparr>, \<lparr>users_id = ''u2'', money = 7000\<rparr>]"

definition ex_store :: "bool list \<Rightarrow> store" where
  "ex_store fl = \<lparr>epl_matches = [ex_match], bets = ex_bets, users = ex_users, faults = fl\<rparr>"

definition ex_odds_event :: "Outcome list \<Rightarrow> OddsAPIEvent" where
  "ex_odds_event outcomes =
     \<lparr>oe_ID = ''m1'', oe_SportKey = ''soccer_epl'', oe_CommenceTime = 100,
      oe_HomeTeam = ''Arsenal'', oe_AwayTeam = ''Chelsea'',
      oe_Bookmakers = [\<lparr>bm_Key = ''marathonbet'', bm_Title = ''Marathon Bet'',
                         bm_Markets = [\<lparr>mk_Key = ''h2h'', mk_Outcomes = outcomes\<rparr>]\<rparr>]\<rparr>"

definition ex_outcomes :: "Outcome list" where
  "ex_outcomes = [\<lparr>oc_Name = ''Arsenal'', oc_Price = 220\<rparr>, \<lparr>oc_Name = ''Chelsea'', oc_Price = 340\<rparr>,
                  \<lparr>oc_Name = ''Draw'', oc_Price = 330\<rparr>]"

definition ex_score_event :: "bool \<Rightarrow> ScoreEntry list \<Rightarrow> ScoresAPIEvent" where
  "ex_score_event completed scores =
     \<lparr>sc_ID = ''m1'', sc_SportKey = ''soccer_epl'', sc_CommenceTime = 100,
      sc_HomeTeam = ''Arsenal'', sc_AwayTeam = ''Chelsea'', sc_Completed = completed,
      sc_Scores = scores\<rparr>"

definition empty_store :: store where
  "empty_store = \<lparr>epl_matches = [], bets = [], users = [], faults = []\<rparr>"

definition ex_settled :: store where
  "ex_settled =
     \<lparr>epl_matches = [ex_match\<lparr>Calculated := True, Result := Some ''home''\<rparr>],
      bets = [(ex_bets ! 0)\<lparr>status := Some ''won''\<rparr>, (ex_bets ! 1)\<lparr>status := Some ''lost''\<rparr>,
              ex_bets ! 2],
      users = [\<lparr>users_id = ''u1'', money = 7100\<rparr>, \<lparr>users_id = ''u2'', money = 7000\<rparr>],
      faults = []\<rparr>"

definition ex_batch :: "OddsAPIEvent json_record list" where
  "ex_batch =
     Malformed #
     map (\<lambda>k. Decodes ((ex_odds_event ex_outcomes)\<lparr>oe_ID := k\<rparr>))
       [''m1'', ''m2'', ''m3'', ''m4'', ''m5'', ''m6'', ''m7'', ''m8'', ''m9'']"

definition ex_two_matches :: store where
  "ex_two_matches =
     \<lparr>epl_matches = [ex_match, ex_match\<lparr>APIID := ''m2'', HomeScore := None\<rparr>],
      bets = ex_bets, users = ex_users, faults = []\<rparr>"

text \<open>The equations that evaluate the model on the examples.\<close>

lemmas ex_defs = ex_match_def ex_bets_def ex_users_def ex_store_def

lemmas settle_defs = calc_match_def UpdateBetsStatusAndUserMoney_def UpdateMatchCalculated_def
  tx_update_bets_def store_call_def rollback_def winning_bets_def is_pending_on_def
  new_status_def settle_bet_def credit_def match_result_def mark_calculated_def

lemmas sync_defs = oddsSyncHandler_def scoresSyncHandler_def fetchOddsFromAPI_def
  fetchScoresFromAPI_def fetch_events_def odds_sync_event_def scores_sync_event_def
  processOddsEvent_def processScoreEvent_def odds_outcome_def score_entry_def empty_match_def
  GetMatchByAPIID_def UpdateMatchByAPIID_def UpsertMatch_def merge_row_def insert_row_def
  store_call_def Atoi_def digit_val_def

lemmas calc_defs = calcHandler_def GetCompletedUncalculatedMatches_def is_candidate_def
  calc_loop_def mark_calculated_def

section \<open>What each store call and each loop keeps\<close>

lemma store_call_tables:
  "store_call s = (f, s1) \<Longrightarrow>
     epl_matches s1 = epl_matches s \<and> bets s1 = bets s \<and> users s1 = users s"
  by (auto simp: store_call_def split: list.splits)

lemma credit_winners_ok:
  "credit_winners ws t = (Inr x, t1) \<Longrightarrow>
     epl_matches t1 = epl_matches t \<and> bets t1 = bets t \<and>
     users t1 = map (\<lambda>u. u\<lparr>money := money u + sum_list (map snd (filter (\<lambda>p. fst p = users_id u) ws))\<rparr>) (users t)"
proof (induction ws arbitrary: t)
  case Nil
  then show ?case by (simp add: map_idI)
next
  case (Cons p ws)
  obtain uid w where p: "p = (uid, w)" by (cases p)
  obtain f t0 where sc: "store_call t = (f, t0)" by (cases "store_call t")
  from Cons.prems p sc have nf: "\<not> f" by (auto split: if_splits)
  with Cons.prems p sc have rec: "credit_winners ws (t0\<lparr>users := credit uid w (users t0)\<rparr>) = (Inr x, t1)"
    by simp
  note ih = Cons.IH [OF rec]
  from store_call_tables [OF sc] have eq: "epl_matches t0 = epl_matches t" "bets t0 = bets t" "users t0 = users t"
    by simp_all
  show ?case using ih eq p
    by (auto simp: credit_def)
qed

lemma tx_update_bets_ok:
  "tx_update_bets mid r t = (Inr rows, t1) \<Longrightarrow>
     epl_matches t1 = epl_matches t \<and> users t1 = users t \<and>
     bets t1 = map (settle_bet mid r) (bets t) \<and>
     rows = map (\<lambda>b. (user_id b, potential_win b, new_status r b)) (filter (is_pending_on mid) (bets t))"
  by (cases "store_call t") (auto simp: tx_update_bets_def split: bool.splits dest: store_call_tables)

lemma winners_sum:
  "sum_list (map snd (filter (\<lambda>p. fst p = uid)
      (winning_bets (map (\<lambda>b. (user_id b, potential_win b, new_status r b)) bs)))) =
   sum_list (map potential_win (filter (\<lambda>b. bet_type b = r \<and> user_id b = uid) bs))"
  by (induction bs) (auto simp: winning_bets_def new_status_def)

lemma rollback_tables:
  "epl_matches (rollback s0 t) = epl_matches s0 \<and> bets (rollback s0 t) = bets s0 \<and> users (rollback s0 t) = users s0"
  by (simp add: rollback_def)

lemma UpdateBets_fail:
  assumes "UpdateBetsStatusAndUserMoney mid r s = (Inl e, s1)"
  shows "epl_matches s1 = epl_matches s \<and> bets s1 = bets s \<and> users s1 = users s"
proof -
  obtain f s0 where sc: "store_call s = (f, s0)" by (cases "store_call s")
  note t0 = store_call_tables [OF sc]
  show ?thesis
  proof (cases f)
    case True
    with assms sc t0 show ?thesis by (simp add: UpdateBetsStatusAndUserMoney_def)
  next
    case False
    with assms sc have "\<exists>t. s1 = rollback s0 t"
      by (auto simp: UpdateBetsStatusAndUserMoney_def split: prod.splits sum.splits bool.splits)
    then show ?thesis using t0 by (auto simp: rollback_def)
  qed
qed

lemma UpdateBets_ok:
  assumes "UpdateBetsStatusAndUserMoney mid r s = (Inr x, s1)"
  shows "epl_matches s1 = epl_matches s \<and> bets s1 = map (settle_bet mid r) (bets s) \<and>
     users s1 = map (\<lambda>u. u\<lparr>money := money u + sum_list (map potential_win
        (filter (\<lambda>b. bet_type b = r \<and> user_id b = users_id u) (filter (is_pending_on mid) (bets s))))\<rparr>) (users s)"
proof -
  obtain f s0 where sc: "store_call s = (f, s0)" by (cases "store_call s")
  note t0 = store_call_tables [OF sc]
  from assms sc have nf: "\<not> f" by (auto simp: UpdateBetsStatusAndUserMoney_def)
  obtain rows t1 where tx: "tx_update_bets mid r s0 = (Inr rows, t1)"
    using assms sc nf by (auto simp: UpdateBetsStatusAndUserMoney_def split: prod.splits sum.splits bool.splits)
  note u = tx_update_bets_ok [OF tx]
  obtain y t2 where cw: "credit_winners (winning_bets rows) t1 = (Inr y, t2)"
    using assms sc nf tx by (auto simp: UpdateBetsStatusAndUserMoney_def split: prod.splits sum.splits bool.splits)
  note c = credit_winners_ok [OF cw]
  have cm: "store_call t2 = (False, s1)"
    using assms sc nf tx cw by (auto simp: UpdateBetsStatusAndUserMoney_def split: prod.splits sum.splits bool.splits)
  note k = store_call_tables [OF cm]
  show ?thesis using t0 u c k by (simp add: winners_sum)
qed

lemma UpdateMatch_ok:
  assumes "UpdateMatchByAPIID apiID incoming s = (Inr m, s')"
  shows "epl_matches s' = map (\<lambda>r. if APIID r = apiID then merge_row incoming r else r) (epl_matches s)
     \<and> bets s' = bets s \<and> users s' = users s"
proof -
  obtain f s1 where sc: "store_call s = (f, s1)" by (cases "store_call s")
  from assms sc store_call_tables [OF sc] show ?thesis
    by (auto simp: UpdateMatchByAPIID_def Let_def split: bool.splits option.splits)
qed

lemma UpdateMatch_fail:
  assumes "UpdateMatchByAPIID apiID incoming s = (Inl e, s')"
  shows "epl_matches s' = epl_matches s \<and> bets s' = bets s \<and> users s' = users s"
proof -
  obtain f s1 where sc: "store_call s = (f, s1)" by (cases "store_call s")
  from assms sc store_call_tables [OF sc] show ?thesis
    by (auto simp: UpdateMatchByAPIID_def Let_def split: bool.splits option.splits)
qed

lemma store_call_nofault: "faults s = [] \<Longrightarrow> store_call s = (False, s)"
  by (simp add: store_call_def)

lemma GetMatch_tables:
  "GetMatchByAPIID a s = (r, s1) \<Longrightarrow>
     epl_matches s1 = epl_matches s \<and> bets s1 = bets s \<and> users s1 = users s"
  by (cases "store_call s")
     (auto simp: GetMatchByAPIID_def split: bool.splits option.splits dest: store_call_tables)

lemma GetMatch_found:
  "GetMatchByAPIID a s = (Inr m, s1) \<Longrightarrow> m \<in> set (epl_matches s) \<and> APIID m = a"
  by (cases "store_call s")
     (auto simp: GetMatchByAPIID_def find_Some_iff split: bool.splits option.splits
           dest: store_call_tables)

lemma GetMatch_absent:
  assumes "\<forall>r \<in> set (epl_matches s). APIID r \<noteq> a"
  shows "\<exists>e. GetMatchByAPIID a s = (Inl e, snd (store_call s))"
proof -
  obtain f s1 where sc: "store_call s = (f, s1)" by (cases "store_call s")
  from store_call_tables [OF sc] assms have "find (\<lambda>m. APIID m = a) (epl_matches s1) = None"
    by (simp add: find_None_iff)
  with sc show ?thesis by (cases f) (simp_all add: GetMatchByAPIID_def)
qed

lemma fold_odds_outcome_frame:
  "APIID (fold (odds_outcome e) os m) = APIID m \<and>
   Completed (fold (odds_outcome e) os m) = Completed m \<and>
   Calculated (fold (odds_outcome e) os m) = Calculated m \<and>
   Result (fold (odds_outcome e) os m) = Result m \<and>
   HomeScore (fold (odds_outcome e) os m) = HomeScore m \<and>
   AwayScore (fold (odds_outcome e) os m) = AwayScore m"
  by (induction os arbitrary: m) (simp_all add: odds_outcome_def)

lemma processOddsEvent_fields:
  "APIID (processOddsEvent e) = oe_ID e" "Completed (processOddsEvent e) = False"
  "Calculated (processOddsEvent e) = False" "Result (processOddsEvent e) = None"
  "HomeScore (processOddsEvent e) = None" "AwayScore (processOddsEvent e) = None"
  by (simp_all add: processOddsEvent_def Let_def fold_odds_outcome_frame empty_match_def
        split: list.splits)

lemma processScoreEvent_fields:
  "APIID (processScoreEvent e) = sc_ID e" "Completed (processScoreEvent e) = sc_Completed e"
  "Calculated (processScoreEvent e) = False" "Result (processScoreEvent e) = None"
  "HomeOdds (processScoreEvent e) = None" "DrawOdds (processScoreEvent e) = None"
  "AwayOdds (processScoreEvent e) = None"
  by (simp_all add: processScoreEvent_def empty_match_def split: prod.splits)

lemma UpsertMatch_absent_nofault:
  assumes "\<forall>r \<in> set (epl_matches s). APIID r \<noteq> APIID m" and "faults s = []"
  shows "UpsertMatch m s = (Inr (insert_row m), s\<lparr>epl_matches := epl_matches s @ [insert_row m]\<rparr>)"
proof -
  from assms have "find (\<lambda>r. APIID r = APIID m) (epl_matches s) = None"
    by (simp add: find_None_iff)
  with assms show ?thesis
    by (simp add: UpsertMatch_def GetMatchByAPIID_def store_call_nofault)
qed




lemma fold_score_entry_home_kept:
  "\<forall>y \<in> set ys. se_Name y \<noteq> sc_HomeTeam e \<or> Atoi (se_Score y) = None \<Longrightarrow>
     fst (fold (score_entry e) ys (h, a)) = h"
proof (induction ys arbitrary: h a)
  case Nil
  then show ?case by simp
next
  case (Cons y ys)
  from Cons.prems have "\<exists>a'. score_entry e y (h, a) = (h, a')"
    by (auto simp: score_entry_def split: option.splits)
  then obtain a' where "score_entry e y (h, a) = (h, a')" ..
  with Cons show ?case by simp
qed


lemma score_missing_absent:
  assumes "\<forall>y \<in> set (sc_Scores e). se_Name y \<noteq> sc_HomeTeam e \<or> Atoi (se_Score y) = None"
  shows "HomeScore (processScoreEvent e) = None"
proof -
  from fold_score_entry_home_kept [OF assms, of "- 1" "- 1"]
  show ?thesis
    by (cases "fold (score_entry e) (sc_Scores e) (- 1, - 1)") (auto simp: processScoreEvent_def)
qed

lemma UpdateMatchCalculated_ok:
  assumes "UpdateMatchCalculated a r s = (Inr x, s')"
  shows "epl_matches s' = map (mark_calculated a r) (epl_matches s) \<and> bets s' = bets s \<and>
         users s' = users s"
proof -
  obtain f s1 where sc: "store_call s = (f, s1)" by (cases "store_call s")
  from assms sc store_call_tables [OF sc] show ?thesis
    by (cases f) (auto simp: UpdateMatchCalculated_def mark_calculated_def)
qed

lemma UpdateMatchCalculated_fail:
  assumes "UpdateMatchCalculated a r s = (Inl e, s')"
  shows "epl_matches s' = epl_matches s \<and> bets s' = bets s \<and> users s' = users s"
proof -
  obtain f s1 where sc: "store_call s = (f, s1)" by (cases "store_call s")
  from assms sc store_call_tables [OF sc] show ?thesis
    by (cases f) (auto simp: UpdateMatchCalculated_def)
qed

text \<open>The three ways the loop body can end.\<close>

lemma calc_match_cases:
  assumes "calc_match m (summary, s) = (summary', s')"
  shows "(epl_matches s' = epl_matches s \<and> bets s' = bets s \<and> users s' = users s) \<or>
         (\<exists>h a x s1. HomeScore m = Some h \<and> AwayScore m = Some a \<and>
            UpdateBetsStatusAndUserMoney (APIID m) (match_result h a) s = (Inr x, s1) \<and>
            bets s' = bets s1 \<and> users s' = users s1 \<and>
            (epl_matches s' = epl_matches s \<or>
             epl_matches s' = map (mark_calculated (APIID m) (match_result h a)) (epl_matches s)))"
proof -
  obtain n cms where sm: "summary = (n, cms)" by (cases summary)
  show ?thesis
  proof (cases "HomeScore m")
    case None
    with assms sm show ?thesis by (simp add: calc_match_def)
  next
    case (Some h)
    note hs = this
    show ?thesis
    proof (cases "AwayScore m")
      case None
      with assms sm hs show ?thesis by (simp add: calc_match_def)
    next
      case (Some a)
      note as = this
      obtain r1 s1 where ub: "UpdateBetsStatusAndUserMoney (APIID m) (match_result h a) s = (r1, s1)"
        by (cases "UpdateBetsStatusAndUserMoney (APIID m) (match_result h a) s")
      show ?thesis
      proof (cases r1)
        case (Inl e)
        with assms sm hs as ub have "s' = s1" by (simp add: calc_match_def)
        with UpdateBets_fail [of "APIID m" "match_result h a" s e s1] ub Inl show ?thesis by simp
      next
        case (Inr x)
        note ub' = ub [unfolded Inr]
        note ok = UpdateBets_ok [OF ub']
        obtain r2 s2 where uc: "UpdateMatchCalculated (APIID m) (match_result h a) s1 = (r2, s2)"
          by (cases "UpdateMatchCalculated (APIID m) (match_result h a) s1")
        show ?thesis
        proof (cases r2)
          case (Inl e)
          with assms sm hs as ub' uc have "s' = s2" by (simp add: calc_match_def)
          with UpdateMatchCalculated_fail [of "APIID m" "match_result h a" s1 e s2] uc Inl ok
            hs as ub'
          show ?thesis by auto
        next
          case (Inr y)
          with assms sm hs as ub' uc have "s' = s2" by (simp add: calc_match_def)
          with UpdateMatchCalculated_ok [of "APIID m" "match_result h a" s1 y s2] uc Inr ok
            hs as ub'
          show ?thesis by auto
        qed
      qed
    qed
  qed
qed

lemma settle_bet_other: "match_id b \<noteq> a \<Longrightarrow> settle_bet a r b = b"
  by (simp add: settle_bet_def is_pending_on_def)

lemma settle_bet_not_pending: "status b \<noteq> Some ''pending'' \<Longrightarrow> settle_bet a r b = b"
  by (simp add: settle_bet_def is_pending_on_def)

lemma settle_bet_status:
  "status (settle_bet a r b) = Some ''pending'' \<Longrightarrow> status b = Some ''pending'' \<and> match_id b \<noteq> a"
  by (auto simp: settle_bet_def is_pending_on_def new_status_def split: if_splits)

lemma settle_bet_match_id: "match_id (settle_bet a r b) = match_id b"
  by (simp add: settle_bet_def)

text \<open>What one pass of the loop body keeps, for a match with another external id.\<close>

lemma calc_match_frame:
  assumes "calc_match m (summary, s) = (summary', s')"
  shows "length (epl_matches s') = length (epl_matches s)"
    and "length (bets s') = length (bets s)"
    and "\<And>i. i < length (epl_matches s) \<Longrightarrow> APIID (epl_matches s ! i) \<noteq> APIID m \<Longrightarrow>
            epl_matches s' ! i = epl_matches s ! i"
    and "\<And>i. i < length (epl_matches s) \<Longrightarrow> APIID (epl_matches s' ! i) = APIID (epl_matches s ! i)"
    and "\<And>j. j < length (bets s) \<Longrightarrow> match_id (bets s ! j) \<noteq> APIID m \<Longrightarrow>
            bets s' ! j = bets s ! j"
    and "\<And>j. j < length (bets s) \<Longrightarrow> match_id (bets s' ! j) = match_id (bets s ! j)"
  using calc_match_cases [OF assms]
  by (auto simp: mark_calculated_def settle_bet_other settle_bet_match_id
           dest!: UpdateBets_ok)

lemma mark_calculated_fields:
  "APIID (mark_calculated a r m) = APIID m" "Completed (mark_calculated a r m) = Completed m"
  "HomeScore (mark_calculated a r m) = HomeScore m" "AwayScore (mark_calculated a r m) = AwayScore m"
  "Calculated m \<Longrightarrow> Calculated (mark_calculated a r m)"
  "APIID m \<noteq> a \<Longrightarrow> mark_calculated a r m = m"
  "APIID m = a \<Longrightarrow> Calculated (mark_calculated a r m) \<and> Result (mark_calculated a r m) = Some r"
  by (simp_all add: mark_calculated_def)

lemma calc_match_rows:
  assumes "calc_match m (summary, s) = (summary', s')" and "i < length (epl_matches s)"
  shows "Completed (epl_matches s' ! i) = Completed (epl_matches s ! i)"
    and "HomeScore (epl_matches s' ! i) = HomeScore (epl_matches s ! i)"
    and "AwayScore (epl_matches s' ! i) = AwayScore (epl_matches s ! i)"
    and "Calculated (epl_matches s ! i) \<Longrightarrow> Calculated (epl_matches s' ! i)"
  using calc_match_cases [OF assms(1)] assms(2)
  by (auto simp: mark_calculated_fields)

lemma calc_match_consistent:
  assumes "calc_match m (summary, s) = (summary', s')" and "settled_consistent s"
  shows "settled_consistent s'"
proof -
  from calc_match_cases [OF assms(1)]
  consider (same) "epl_matches s' = epl_matches s" "bets s' = bets s"
    | (tx) h a x s1 where "UpdateBetsStatusAndUserMoney (APIID m) (match_result h a) s = (Inr x, s1)"
        "bets s' = bets s1"
        "epl_matches s' = epl_matches s \<or>
         epl_matches s' = map (mark_calculated (APIID m) (match_result h a)) (epl_matches s)"
    by blast
  then show ?thesis
  proof cases
    case same
    with assms(2) show ?thesis by (simp add: settled_consistent_def)
  next
    case tx
    let ?a = "APIID m" and ?r = "match_result h a"
    from UpdateBets_ok [OF tx(1)] tx(2)
    have bs: "bets s' = map (settle_bet ?a ?r) (bets s)" by simp
    have old: "\<And>row b'. row \<in> set (epl_matches s) \<Longrightarrow> Calculated row \<Longrightarrow>
        b' \<in> set (bets s') \<Longrightarrow> match_id b' = APIID row \<Longrightarrow> status b' \<noteq> Some ''pending''"
    proof
      fix row b'
      assume row: "row \<in> set (epl_matches s)" "Calculated row"
        and b': "b' \<in> set (bets s')" "match_id b' = APIID row" "status b' = Some ''pending''"
      from b'(1) bs obtain b where b: "b \<in> set (bets s)" "b' = settle_bet ?a ?r b" by auto
      with b'(3) settle_bet_status [of ?a ?r b] have "status b = Some ''pending''" by simp
      moreover from b b'(2) have "match_id b = APIID row" by (simp add: settle_bet_match_id)
      ultimately show False using assms(2) row b(1) by (auto simp: settled_consistent_def)
    qed
    have new: "\<And>b'. b' \<in> set (bets s') \<Longrightarrow> match_id b' = ?a \<Longrightarrow> status b' \<noteq> Some ''pending''"
    proof
      fix b'
      assume b': "b' \<in> set (bets s')" "match_id b' = ?a" "status b' = Some ''pending''"
      from b'(1) bs obtain b where b: "b \<in> set (bets s)" "b' = settle_bet ?a ?r b" by auto
      with b'(3) settle_bet_status [of ?a ?r b] have "match_id b \<noteq> ?a" by simp
      with b b'(2) show False by (simp add: settle_bet_match_id)
    qed
    from tx(3) show ?thesis
    proof
      assume "epl_matches s' = epl_matches s"
      with assms(2) old show ?thesis by (auto simp: settled_consistent_def)
    next
      assume ms: "epl_matches s' = map (mark_calculated ?a ?r) (epl_matches s)"
      show ?thesis
        unfolding settled_consistent_def
      proof (intro ballI impI)
        fix row' assume r': "row' \<in> set (epl_matches s')" "Calculated row'"
        from r'(1) ms obtain row where row: "row \<in> set (epl_matches s)"
          "row' = mark_calculated ?a ?r row" by auto
        show "Result row' \<noteq> None \<and>
          (\<forall>b \<in> set (bets s'). match_id b = APIID row' \<longrightarrow> status b \<noteq> Some ''pending'')"
        proof (cases "APIID row = ?a")
          case True
          with row new show ?thesis by (auto simp: mark_calculated_fields)
        next
          case False
          with row have eq: "row' = row" by (simp add: mark_calculated_fields)
          with r'(2) row(1) assms(2) old show ?thesis
            by (auto simp: settled_consistent_def)
        qed
      qed
    qed
  qed
qed

lemma calc_loop_Cons:
  "calc_loop (m # ms) acc = calc_loop ms (calc_match m acc)"
  by (simp add: calc_loop_def)

lemma calc_loop_consistent:
  "calc_loop ms (summary, s) = (summary', s') \<Longrightarrow> settled_consistent s \<Longrightarrow>
     settled_consistent s'"
proof (induction ms arbitrary: summary s)
  case Nil
  then show ?case by (simp add: calc_loop_def)
next
  case (Cons m ms)
  obtain sm1 s1 where st: "calc_match m (summary, s) = (sm1, s1)"
    by (cases "calc_match m (summary, s)")
  from Cons.prems(1) st have "calc_loop ms (sm1, s1) = (summary', s')"
    by (simp add: calc_loop_Cons)
  from Cons.IH [OF this calc_match_consistent [OF st Cons.prems(2)]] show ?case .
qed

text \<open>The loop keeps every match and every wager of an external id it does not visit.\<close>

lemma calc_loop_frame:
  "calc_loop ms (summary, s) = (summary', s') \<Longrightarrow>
     length (epl_matches s') = length (epl_matches s) \<and>
     length (bets s') = length (bets s) \<and>
     map APIID (epl_matches s') = map APIID (epl_matches s) \<and>
     (\<forall>i < length (epl_matches s).
        Completed (epl_matches s' ! i) = Completed (epl_matches s ! i) \<and>
        HomeScore (epl_matches s' ! i) = HomeScore (epl_matches s ! i) \<and>
        AwayScore (epl_matches s' ! i) = AwayScore (epl_matches s ! i) \<and>
        (Calculated (epl_matches s ! i) \<longrightarrow> Calculated (epl_matches s' ! i)) \<and>
        (APIID (epl_matches s ! i) \<notin> APIID ` set ms \<longrightarrow>
           epl_matches s' ! i = epl_matches s ! i)) \<and>
     (\<forall>j < length (bets s).
        match_id (bets s ! j) \<notin> APIID ` set ms \<longrightarrow> bets s' ! j = bets s ! j)"
proof (induction ms arbitrary: summary s)
  case Nil
  then show ?case by (simp add: calc_loop_def)
next
  case (Cons m ms)
  obtain sm1 s1 where st: "calc_match m (summary, s) = (sm1, s1)"
    by (cases "calc_match m (summary, s)")
  from Cons.prems(1) st have lp: "calc_loop ms (sm1, s1) = (summary', s')"
    by (simp add: calc_loop_Cons)
  note ih = Cons.IH [OF lp]
  note f = calc_match_frame [OF st]
  note r = calc_match_rows [OF st]
  have ids: "map APIID (epl_matches s1) = map APIID (epl_matches s)"
    using f(1) f(4) by (simp add: list_eq_iff_nth_eq)
  show ?case
  proof (intro conjI allI impI)
    show "length (epl_matches s') = length (epl_matches s)" using ih f(1) by simp
    show "length (bets s') = length (bets s)" using ih f(2) by simp
    show "map APIID (epl_matches s') = map APIID (epl_matches s)" using ih ids by simp
  next
    fix i assume i: "i < length (epl_matches s)"
    with f(1) have i1: "i < length (epl_matches s1)" by simp
    show "Completed (epl_matches s' ! i) = Completed (epl_matches s ! i)"
      using ih i1 r(1) [OF i] by simp
    show "HomeScore (epl_matches s' ! i) = HomeScore (epl_matches s ! i)"
      using ih i1 r(2) [OF i] by simp
    show "AwayScore (epl_matches s' ! i) = AwayScore (epl_matches s ! i)"
      using ih i1 r(3) [OF i] by simp
    {
      assume "Calculated (epl_matches s ! i)"
      from r(4) [OF i this] ih i1 show "Calculated (epl_matches s' ! i)" by simp
    }
    {
      assume out: "APIID (epl_matches s ! i) \<notin> APIID ` set (m # ms)"
      then have "APIID (epl_matches s ! i) \<noteq> APIID m" by auto
      from f(3) [OF i this] have e1: "epl_matches s1 ! i = epl_matches s ! i" .
      with out have "APIID (epl_matches s1 ! i) \<notin> APIID ` set ms" by auto
      with ih i1 e1 show "epl_matches s' ! i = epl_matches s ! i" by simp
    }
  next
    fix j assume j: "j < length (bets s)"
      and out: "match_id (bets s ! j) \<notin> APIID ` set (m # ms)"
    from j f(2) have j1: "j < length (bets s1)" by simp
    from out have "match_id (bets s ! j) \<noteq> APIID m" by auto
    from f(5) [OF j this] have e1: "bets s1 ! j = bets s ! j" .
    with out have "match_id (bets s1 ! j) \<notin> APIID ` set ms" by auto
    with ih j1 e1 show "bets s' ! j = bets s ! j" by simp
  qed
qed

lemma GetCompleted_cases:
  assumes "GetCompletedUncalculatedMatches s = (r, s1)"
  shows "epl_matches s1 = epl_matches s \<and> bets s1 = bets s \<and> users s1 = users s \<and>
         ((\<exists>e. r = Inl e) \<or> r = Inr (filter is_candidate (epl_matches s)))"
proof -
  obtain f s0 where sc: "store_call s = (f, s0)" by (cases "store_call s")
  from assms sc store_call_tables [OF sc] show ?thesis
    by (cases f) (auto simp: GetCompletedUncalculatedMatches_def)
qed

text \<open>The whole handler: either nothing was selected, or the loop ran on the candidates.\<close>

lemma calcHandler_cases:
  obtains (nothing) "epl_matches (snd (calcHandler s)) = epl_matches s"
      "bets (snd (calcHandler s)) = bets s" "users (snd (calcHandler s)) = users s"
  | (loop) s1 summary where "epl_matches s1 = epl_matches s" "bets s1 = bets s"
      "users s1 = users s"
      "calc_loop (filter is_candidate (epl_matches s)) ((0, []), s1) = (summary, snd (calcHandler s))"
proof -
  obtain r s1 where g: "GetCompletedUncalculatedMatches s = (r, s1)"
    by (cases "GetCompletedUncalculatedMatches s")
  note c = GetCompleted_cases [OF g]
  show ?thesis
  proof (cases r)
    case (Inl e)
    with g c have "epl_matches (snd (calcHandler s)) = epl_matches s"
      "bets (snd (calcHandler s)) = bets s" "users (snd (calcHandler s)) = users s"
      by (simp_all add: calcHandler_def)
    then show ?thesis by (rule nothing)
  next
    case (Inr ms)
    with c have ms: "ms = filter is_candidate (epl_matches s)" by auto
    obtain summary s2 where l: "calc_loop ms ((0, []), s1) = (summary, s2)"
      by (cases "calc_loop ms ((0, []), s1)")
    with g Inr have "snd (calcHandler s) = s2" by (auto simp: calcHandler_def calc_loop_def)
    with l ms c show ?thesis by (intro loop [of s1 summary]) simp_all
  qed
qed

lemma not_candidate_id:
  assumes "distinct (map APIID rows)" and "i < length rows" and "\<not> is_candidate (rows ! i)"
  shows "APIID (rows ! i) \<notin> APIID ` set (filter is_candidate rows)"
proof
  assume "APIID (rows ! i) \<in> APIID ` set (filter is_candidate rows)"
  then obtain m where m: "m \<in> set rows" "is_candidate m" "APIID m = APIID (rows ! i)" by auto
  from m(1) obtain k where k: "k < length rows" "rows ! k = m" by (auto simp: in_set_conv_nth)
  from assms(1) have "inj_on APIID (set rows)" by (simp add: distinct_map)
  with m(1,3) assms(2) have "m = rows ! i" by (auto dest: inj_onD)
  with m(2) assms(3) show False by simp
qed

lemma calcHandler_frame:
  assumes "distinct (map APIID (epl_matches s))"
    and "i < length (epl_matches s)" and "\<not> is_candidate (epl_matches s ! i)"
  shows "epl_matches (snd (calcHandler s)) ! i = epl_matches s ! i"
    and "\<And>j. j < length (bets s) \<Longrightarrow> match_id (bets s ! j) = APIID (epl_matches s ! i) \<Longrightarrow>
           bets (snd (calcHandler s)) ! j = bets s ! j"
proof -
  note out = not_candidate_id [OF assms]
  show "epl_matches (snd (calcHandler s)) ! i = epl_matches s ! i"
  proof (cases s rule: calcHandler_cases)
    case nothing
    then show ?thesis by simp
  next
    case (loop s1 summary)
    from calc_loop_frame [OF loop(4)] loop(1) assms(2) out show ?thesis by simp
  qed
  fix j assume j: "j < length (bets s)" "match_id (bets s ! j) = APIID (epl_matches s ! i)"
  show "bets (snd (calcHandler s)) ! j = bets s ! j"
  proof (cases s rule: calcHandler_cases)
    case nothing
    then show ?thesis by simp
  next
    case (loop s1 summary)
    from calc_loop_frame [OF loop(4)] loop(2) j out show ?thesis by simp
  qed
qed

lemma calcHandler_shape:
  "length (epl_matches (snd (calcHandler s))) = length (epl_matches s) \<and>
   length (bets (snd (calcHandler s))) = length (bets s) \<and>
   map APIID (epl_matches (snd (calcHandler s))) = map APIID (epl_matches s)"
proof (cases s rule: calcHandler_cases)
  case nothing
  then show ?thesis by simp
next
  case (loop s1 summary)
  from calc_loop_frame [OF loop(4)] loop(1,2) show ?thesis by simp
qed

subsection \<open>A run without store failures\<close>

lemma credit_winners_nofault:
  "faults t = [] \<Longrightarrow> \<exists>t'. credit_winners ws t = (Inr (), t') \<and> faults t' = []"
proof (induction ws arbitrary: t)
  case Nil
  then show ?case by simp
next
  case (Cons p ws)
  obtain uid w where p: "p = (uid, w)" by (cases p)
  from Cons.prems have "faults (t\<lparr>users := credit uid w (users t)\<rparr>) = []" by simp
  from Cons.IH [OF this] Cons.prems p show ?case
    by (simp add: store_call_nofault)
qed

lemma UpdateBets_nofault:
  assumes "faults s = []"
  shows "\<exists>s'. UpdateBetsStatusAndUserMoney a r s = (Inr (), s') \<and> faults s' = []"
proof -
  let ?t1 = "s\<lparr>bets := map (settle_bet a r) (bets s)\<rparr>"
  let ?rows = "map (\<lambda>b. (user_id b, potential_win b, new_status r b))
                    (filter (is_pending_on a) (bets s))"
  have tx: "tx_update_bets a r s = (Inr ?rows, ?t1)"
    using assms by (simp add: tx_update_bets_def store_call_nofault)
  have "faults ?t1 = []" using assms by simp
  from credit_winners_nofault [OF this, of "winning_bets ?rows"]
  obtain t2 where c: "credit_winners (winning_bets ?rows) ?t1 = (Inr (), t2)" "faults t2 = []"
    by blast
  from assms tx c show ?thesis
    by (simp add: UpdateBetsStatusAndUserMoney_def store_call_nofault)
qed

lemma calc_match_nofault:
  assumes "faults s = []" and "HomeScore m = Some h" and "AwayScore m = Some a"
  shows "\<exists>summary' s'. calc_match m (summary, s) = (summary', s') \<and> faults s' = [] \<and>
           epl_matches s' = map (mark_calculated (APIID m) (match_result h a)) (epl_matches s)"
proof -
  obtain n cms where sm: "summary = (n, cms)" by (cases summary)
  from UpdateBets_nofault [OF assms(1)] obtain s1
    where ub: "UpdateBetsStatusAndUserMoney (APIID m) (match_result h a) s = (Inr (), s1)"
      and f1: "faults s1 = []" by blast
  note t1 = UpdateBets_ok [OF ub]
  let ?s2 = "s1\<lparr>epl_matches := map (mark_calculated (APIID m) (match_result h a)) (epl_matches s1)\<rparr>"
  have uc: "UpdateMatchCalculated (APIID m) (match_result h a) s1 = (Inr (), ?s2)"
    using f1 by (simp add: UpdateMatchCalculated_def store_call_nofault mark_calculated_def)
  from sm assms(2,3) ub uc f1 t1 show ?thesis
    by (simp add: calc_match_def Let_def)
qed

lemma calc_loop_nofault:
  "faults s = [] \<Longrightarrow> \<forall>m \<in> set ms. HomeScore m \<noteq> None \<and> AwayScore m \<noteq> None \<Longrightarrow>
   calc_loop ms (summary, s) = (summary', s') \<Longrightarrow>
     \<forall>i < length (epl_matches s).
        APIID (epl_matches s ! i) \<in> APIID ` set ms \<longrightarrow> Calculated (epl_matches s' ! i)"
proof (induction ms arbitrary: summary s)
  case Nil
  then show ?case by simp
next
  case (Cons m ms)
  from Cons.prems(2) obtain h a where sc: "HomeScore m = Some h" "AwayScore m = Some a" by auto
  from calc_match_nofault [OF Cons.prems(1) sc, of summary] obtain sm1 s1
    where st: "calc_match m (summary, s) = (sm1, s1)" and f1: "faults s1 = []"
      and rows: "epl_matches s1 = map (mark_calculated (APIID m) (match_result h a)) (epl_matches s)"
    by blast
  from Cons.prems(3) st have lp: "calc_loop ms (sm1, s1) = (summary', s')"
    by (simp add: calc_loop_Cons)
  from Cons.prems(2) have rest: "\<forall>m \<in> set ms. HomeScore m \<noteq> None \<and> AwayScore m \<noteq> None" by simp
  note ih = Cons.IH [OF f1 rest lp]
  note fr = calc_loop_frame [OF lp]
  show ?case
  proof (intro allI impI)
    fix i assume i: "i < length (epl_matches s)"
      and inn: "APIID (epl_matches s ! i) \<in> APIID ` set (m # ms)"
    from i rows have i1: "i < length (epl_matches s1)" by simp
    from i rows have id1: "APIID (epl_matches s1 ! i) = APIID (epl_matches s ! i)"
      by (simp add: mark_calculated_fields)
    show "Calculated (epl_matches s' ! i)"
    proof (cases "APIID (epl_matches s ! i) = APIID m")
      case True
      with i rows have "Calculated (epl_matches s1 ! i)" by (simp add: mark_calculated_fields)
      with fr i1 show ?thesis by simp
    next
      case False
      with inn id1 have "APIID (epl_matches s1 ! i) \<in> APIID ` set ms" by auto
      with ih i1 show ?thesis by simp
    qed
  qed
qed

lemma calcHandler_nofault_settles_all:
  assumes "faults s = []"
  shows "filter is_candidate (epl_matches (snd (calcHandler s))) = []"
proof -
  let ?ms = "filter is_candidate (epl_matches s)"
  have g: "GetCompletedUncalculatedMatches s = (Inr ?ms, s)"
    using assms by (simp add: GetCompletedUncalculatedMatches_def store_call_nofault)
  obtain summary s2 where l: "calc_loop ?ms ((0, []), s) = (summary, s2)"
    by (cases "calc_loop ?ms ((0, []), s)")
  with g have s2: "snd (calcHandler s) = s2" by (auto simp: calcHandler_def calc_loop_def)
  have sc: "\<forall>m \<in> set ?ms. HomeScore m \<noteq> None \<and> AwayScore m \<noteq> None"
    by (simp add: is_candidate_def)
  note all = calc_loop_nofault [OF assms sc l]
  note fr = calc_loop_frame [OF l]
  have "\<And>i. i < length (epl_matches s2) \<Longrightarrow> \<not> is_candidate (epl_matches s2 ! i)"
  proof
    fix i assume i: "i < length (epl_matches s2)" and c: "is_candidate (epl_matches s2 ! i)"
    from i fr have i0: "i < length (epl_matches s)" by simp
    with fr c have "is_candidate (epl_matches s ! i)"
      by (auto simp: is_candidate_def)
    with i0 have "APIID (epl_matches s ! i) \<in> APIID ` set ?ms" by auto
    with all i0 have "Calculated (epl_matches s2 ! i)" by simp
    with c show False by (simp add: is_candidate_def)
  qed
  then have "\<forall>m \<in> set (epl_matches s2). \<not> is_candidate m"
    by (auto simp: in_set_conv_nth)
  with s2 show ?thesis by (simp add: filter_empty_conv)
qed

lemma calcHandler_no_candidates:
  assumes "filter is_candidate (epl_matches s) = []"
  shows "epl_matches (snd (calcHandler s)) = epl_matches s \<and>
         bets (snd (calcHandler s)) = bets s \<and> users (snd (calcHandler s)) = users s"
proof (cases s rule: calcHandler_cases)
  case nothing
  then show ?thesis by simp
next
  case (loop s1 summary)
  from loop(4) assms have "snd (calcHandler s) = s1" by (simp add: calc_loop_def)
  with loop(1-3) show ?thesis by simp
qed

subsection \<open>The settler does not read the wagers of a match it does not visit\<close>

lemma without_fields:
  "epl_matches (without_wagers_on a s) = epl_matches s"
  "users (without_wagers_on a s) = users s"
  "faults (without_wagers_on a s) = faults s"
  "bets (without_wagers_on a s) = filter (\<lambda>b. match_id b \<noteq> a) (bets s)"
  by (simp_all add: without_wagers_on_def)

lemma without_updates:
  "(without_wagers_on a s)\<lparr>bets := bs\<rparr> = s\<lparr>bets := bs\<rparr>"
  "without_wagers_on a (s\<lparr>bets := bs\<rparr>) = s\<lparr>bets := filter (\<lambda>b. match_id b \<noteq> a) bs\<rparr>"
  "(without_wagers_on a s)\<lparr>users := us\<rparr> = without_wagers_on a (s\<lparr>users := us\<rparr>)"
  "(without_wagers_on a s)\<lparr>epl_matches := ms\<rparr> = without_wagers_on a (s\<lparr>epl_matches := ms\<rparr>)"
  by (simp_all add: without_wagers_on_def)

lemma store_call_without:
  "store_call (without_wagers_on a s) =
     (fst (store_call s), without_wagers_on a (snd (store_call s)))"
  by (cases "faults s") (simp_all add: store_call_def without_wagers_on_def)

lemma tx_update_bets_without:
  assumes "m \<noteq> a"
  shows "tx_update_bets m r (without_wagers_on a s) =
           (fst (tx_update_bets m r s), without_wagers_on a (snd (tx_update_bets m r s)))"
proof -
  obtain f s1 where sc: "store_call s = (f, s1)" by (cases "store_call s")
  have p: "filter (is_pending_on m) (filter (\<lambda>b. match_id b \<noteq> a) (bets s1)) =
           filter (is_pending_on m) (bets s1)"
    using assms by (auto simp: is_pending_on_def intro: filter_cong)
  have q: "map (settle_bet m r) (filter (\<lambda>b. match_id b \<noteq> a) (bets s1)) =
           filter (\<lambda>b. match_id b \<noteq> a) (map (settle_bet m r) (bets s1))"
    by (simp add: filter_map comp_def settle_bet_match_id)
  show ?thesis
    using sc p q
    by (cases f) (simp_all add: tx_update_bets_def store_call_without without_fields without_updates)
qed

lemma credit_winners_without:
  "credit_winners ws (without_wagers_on a s) =
     (fst (credit_winners ws s), without_wagers_on a (snd (credit_winners ws s)))"
proof (induction ws arbitrary: s)
  case Nil
  then show ?case by simp
next
  case (Cons p ws)
  obtain uid w where p: "p = (uid, w)" by (cases p)
  obtain f s1 where sc: "store_call s = (f, s1)" by (cases "store_call s")
  have "(without_wagers_on a s1)\<lparr>users := credit uid w (users (without_wagers_on a s1))\<rparr> =
        without_wagers_on a (s1\<lparr>users := credit uid w (users s1)\<rparr>)"
    by (simp add: without_fields without_updates)
  with Cons.IH [of "s1\<lparr>users := credit uid w (users s1)\<rparr>"] p sc show ?case
    by (cases f) (simp_all add: store_call_without)
qed

lemma rollback_without:
  "rollback (without_wagers_on a s0) (without_wagers_on a t) = without_wagers_on a (rollback s0 t)"
  by (simp add: rollback_def without_wagers_on_def)

lemma UpdateBets_without:
  assumes "m \<noteq> a"
  shows "UpdateBetsStatusAndUserMoney m r (without_wagers_on a s) =
           (fst (UpdateBetsStatusAndUserMoney m r s),
            without_wagers_on a (snd (UpdateBetsStatusAndUserMoney m r s)))"
proof -
  obtain f0 s0 where b: "store_call s = (f0, s0)" by (cases "store_call s")
  obtain r1 t1 where u: "tx_update_bets m r s0 = (r1, t1)" by (cases "tx_update_bets m r s0")
  show ?thesis
  proof (cases f0)
    case True
    with b show ?thesis by (simp add: UpdateBetsStatusAndUserMoney_def store_call_without)
  next
    case False
    note f0 = this
    show ?thesis
    proof (cases r1)
      case (Inl e)
      with b f0 u show ?thesis
        by (simp add: UpdateBetsStatusAndUserMoney_def store_call_without
              tx_update_bets_without [OF assms] rollback_without)
    next
      case (Inr rows)
      obtain r2 t2 where c: "credit_winners (winning_bets rows) t1 = (r2, t2)"
        by (cases "credit_winners (winning_bets rows) t1")
      obtain f3 t3 where k: "store_call t2 = (f3, t3)" by (cases "store_call t2")
      from b f0 u Inr c k show ?thesis
        by (cases r2; cases f3)
           (simp_all add: UpdateBetsStatusAndUserMoney_def store_call_without
              tx_update_bets_without [OF assms] credit_winners_without rollback_without)
    qed
  qed
qed

lemma UpdateMatchCalculated_without:
  "UpdateMatchCalculated m r (without_wagers_on a s) =
     (fst (UpdateMatchCalculated m r s), without_wagers_on a (snd (UpdateMatchCalculated m r s)))"
proof -
  obtain f s1 where sc: "store_call s = (f, s1)" by (cases "store_call s")
  then show ?thesis
    by (cases f) (simp_all add: UpdateMatchCalculated_def store_call_without without_fields
          without_updates)
qed

lemma calc_match_without:
  assumes "APIID m \<noteq> a"
  shows "calc_match m (summary, without_wagers_on a s) =
           (fst (calc_match m (summary, s)), without_wagers_on a (snd (calc_match m (summary, s))))"
proof -
  obtain n cms where sm: "summary = (n, cms)" by (cases summary)
  show ?thesis
  proof (cases "HomeScore m")
    case None
    with sm show ?thesis by (simp add: calc_match_def)
  next
    case (Some h)
    note hs = this
    show ?thesis
    proof (cases "AwayScore m")
      case None
      with sm hs show ?thesis by (simp add: calc_match_def)
    next
      case (Some aw)
      obtain r1 s1 where ub: "UpdateBetsStatusAndUserMoney (APIID m) (match_result h aw) s = (r1, s1)"
        by (cases "UpdateBetsStatusAndUserMoney (APIID m) (match_result h aw) s")
      obtain r2 s2 where uc: "UpdateMatchCalculated (APIID m) (match_result h aw) s1 = (r2, s2)"
        by (cases "UpdateMatchCalculated (APIID m) (match_result h aw) s1")
      from sm hs Some ub uc show ?thesis
        by (cases r1; cases r2)
           (simp_all add: calc_match_def Let_def UpdateBets_without [OF assms]
              UpdateMatchCalculated_without)
    qed
  qed
qed

lemma calc_loop_without:
  "a \<notin> APIID ` set ms \<Longrightarrow>
   calc_loop ms (summary, without_wagers_on a s) =
     (fst (calc_loop ms (summary, s)), without_wagers_on a (snd (calc_loop ms (summary, s))))"
proof (induction ms arbitrary: summary s)
  case Nil
  then show ?case by (simp add: calc_loop_def)
next
  case (Cons m ms)
  from Cons.prems have ne: "APIID m \<noteq> a" and rest: "a \<notin> APIID ` set ms" by auto
  obtain sm1 s1 where st: "calc_match m (summary, s) = (sm1, s1)"
    by (cases "calc_match m (summary, s)")
  with calc_match_without [OF ne, of summary s] Cons.IH [OF rest, of sm1 s1]
  show ?case by (simp add: calc_loop_Cons)
qed

lemma calcHandler_without:
  assumes "a \<notin> APIID ` set (filter is_candidate (epl_matches s))"
  shows "calcHandler (without_wagers_on a s) =
           (fst (calcHandler s), without_wagers_on a (snd (calcHandler s)))"
proof -
  obtain f s1 where sc: "store_call s = (f, s1)" by (cases "store_call s")
  from store_call_tables [OF sc] have rows: "epl_matches s1 = epl_matches s" by simp
  let ?ms = "filter is_candidate (epl_matches s)"
  obtain sm2 s2 where l: "calc_loop ?ms ((0, []), s1) = (sm2, s2)"
    by (cases "calc_loop ?ms ((0, []), s1)")
  from sc rows l calc_loop_without [OF assms, of "(0, [])" s1] show ?thesis
    by (cases f)
       (simp_all add: calcHandler_def GetCompletedUncalculatedMatches_def store_call_without
          without_fields)
qed

lemma merge_row_fields:
  "APIID (merge_row m r) = APIID r" "Calculated (merge_row m r) = Calculated r"
  "Result (merge_row m r) = Result r"
  by (simp_all add: merge_row_def)

lemma insert_row_fields:
  "APIID (insert_row m) = APIID m" "Calculated (insert_row m) = Calculated m"
  "Result (insert_row m) = Result m" "HomeOdds (insert_row m) = HomeOdds m"
  "DrawOdds (insert_row m) = DrawOdds m" "AwayOdds (insert_row m) = AwayOdds m"
  by (simp_all add: insert_row_def)

text \<open>The ways \<open>UpsertMatch\<close> can end: an error, a merge-update, an insert of a new id.\<close>

lemma UpsertMatch_cases:
  assumes "UpsertMatch m s = (r, s')"
  shows "bets s' = bets s \<and> users s' = users s \<and>
         ((\<exists>e. r = Inl e) \<and> epl_matches s' = epl_matches s \<or>
          (\<exists>x. r = Inr x) \<and>
            (epl_matches s' =
               map (\<lambda>row. if APIID row = APIID m then merge_row m row else row) (epl_matches s) \<or>
             APIID m \<notin> APIID ` set (epl_matches s) \<and>
               epl_matches s' = epl_matches s @ [insert_row m]))"
proof -
  obtain g s1 where g: "GetMatchByAPIID (APIID m) s = (g, s1)"
    by (cases "GetMatchByAPIID (APIID m) s")
  note t1 = GetMatch_tables [OF g]
  show ?thesis
  proof (cases g)
    case (Inr existing)
    with assms g have u: "UpdateMatchByAPIID (APIID m) m s1 = (r, s')"
      by (simp add: UpsertMatch_def)
    show ?thesis
    proof (cases r)
      case (Inl e)
      with UpdateMatch_fail [of "APIID m" m s1 e s'] u t1 show ?thesis by simp
    next
      case (Inr x)
      with UpdateMatch_ok [of "APIID m" m s1 x s'] u t1 show ?thesis by simp
    qed
  next
    case (Inl e)
    obtain f s2 where sc: "store_call s1 = (f, s2)" by (cases "store_call s1")
    note t2 = store_call_tables [OF sc]
    from assms g Inl sc t1 t2 show ?thesis
      by (cases f) (auto simp: UpsertMatch_def split: if_splits)
  qed
qed

lemma odds_sync_event_cases:
  assumes "odds_sync_event e (res, s) = (res', s')"
  shows "bets s' = bets s \<and> users s' = users s \<and>
         ((res' = res \<or> res' = res\<lparr>skipped := skipped res + 1\<rparr>) \<and>
            epl_matches s' = epl_matches s \<or>
          (res' = res\<lparr>updated := updated res + 1\<rparr> \<or> res' = res\<lparr>created := created res + 1\<rparr>) \<and>
            (\<exists>m1. APIID m1 = oe_ID e \<and> \<not> Calculated m1 \<and>
               (epl_matches s' =
                  map (\<lambda>row. if APIID row = oe_ID e then merge_row m1 row else row)
                    (epl_matches s) \<or>
                oe_ID e \<notin> APIID ` set (epl_matches s) \<and>
                  epl_matches s' = epl_matches s @ [insert_row m1])))"
proof -
  let ?m = "processOddsEvent e"
  obtain g s1 where g: "GetMatchByAPIID (oe_ID e) s = (g, s1)"
    by (cases "GetMatchByAPIID (oe_ID e) s")
  note t1 = GetMatch_tables [OF g]
  show ?thesis
  proof (cases g)
    case (Inr existing)
    let ?m1 = "?m\<lparr> HomeOdds := (if HomeOdds ?m = None then HomeOdds existing else HomeOdds ?m),
                      DrawOdds := (if DrawOdds ?m = None then DrawOdds existing else DrawOdds ?m),
                      AwayOdds := (if AwayOdds ?m = None then AwayOdds existing else AwayOdds ?m) \<rparr>"
    have f1: "APIID ?m1 = oe_ID e" "\<not> Calculated ?m1" by (simp_all add: processOddsEvent_fields)
    obtain u s2 where u: "UpdateMatchByAPIID (oe_ID e) ?m1 s1 = (u, s2)"
      by (cases "UpdateMatchByAPIID (oe_ID e) ?m1 s1")
    show ?thesis
    proof (cases u)
      case (Inl err)
      with assms g Inr u have "res' = res" "s' = s2"
        by (simp_all add: odds_sync_event_def Let_def processOddsEvent_fields)
      with UpdateMatch_fail [of "oe_ID e" ?m1 s1 err s2] u Inl t1 show ?thesis by simp
    next
      case (Inr x)
      with assms g \<open>g = Inr existing\<close> u have "res' = res\<lparr>updated := updated res + 1\<rparr>" "s' = s2"
        by (simp_all add: odds_sync_event_def Let_def processOddsEvent_fields)
      with UpdateMatch_ok [of "oe_ID e" ?m1 s1 x s2] u Inr t1
      have k: "bets s' = bets s" "users s' = users s"
        "epl_matches s' =
           map (\<lambda>row. if APIID row = oe_ID e then merge_row ?m1 row else row) (epl_matches s)"
        "res' = res\<lparr>updated := updated res + 1\<rparr>"
        by simp_all
      have "\<exists>m1. APIID m1 = oe_ID e \<and> \<not> Calculated m1 \<and>
               (epl_matches s' =
                  map (\<lambda>row. if APIID row = oe_ID e then merge_row m1 row else row)
                    (epl_matches s) \<or>
                oe_ID e \<notin> APIID ` set (epl_matches s) \<and>
                  epl_matches s' = epl_matches s @ [insert_row m1])"
        by (rule exI [of _ ?m1]) (simp add: k f1)
      with k show ?thesis by simp
    qed
  next
    case (Inl err)
    show ?thesis
    proof (cases "HomeOdds ?m = None \<or> DrawOdds ?m = None \<or> AwayOdds ?m = None")
      case True
      with assms g Inl have "res' = res\<lparr>skipped := skipped res + 1\<rparr>" "s' = s1"
        by (auto simp: odds_sync_event_def Let_def processOddsEvent_fields)
      with t1 show ?thesis by simp
    next
      case False
      obtain u s2 where u: "UpsertMatch ?m s1 = (u, s2)" by (cases "UpsertMatch ?m s1")
      note c = UpsertMatch_cases [OF u]
      have f1: "APIID ?m = oe_ID e" "\<not> Calculated ?m" by (simp_all add: processOddsEvent_fields)
      show ?thesis
      proof (cases u)
        case (Inl err2)
        with assms g \<open>g = Inl err\<close> False u have "res' = res" "s' = s2"
          by (auto simp: odds_sync_event_def Let_def processOddsEvent_fields)
        with c Inl t1 show ?thesis by simp
      next
        case (Inr x)
        with assms g \<open>g = Inl err\<close> False u
        have "res' = res\<lparr>created := created res + 1\<rparr>" "s' = s2"
          by (auto simp: odds_sync_event_def Let_def processOddsEvent_fields)
        with c Inr t1 f1
        have k: "bets s' = bets s" "users s' = users s"
          "res' = res\<lparr>created := created res + 1\<rparr>"
          "epl_matches s' =
             map (\<lambda>row. if APIID row = oe_ID e then merge_row ?m row else row) (epl_matches s) \<or>
           oe_ID e \<notin> APIID ` set (epl_matches s) \<and>
             epl_matches s' = epl_matches s @ [insert_row ?m]"
          by simp_all
        have "\<exists>m1. APIID m1 = oe_ID e \<and> \<not> Calculated m1 \<and>
               (epl_matches s' =
                  map (\<lambda>row. if APIID row = oe_ID e then merge_row m1 row else row)
                    (epl_matches s) \<or>
                oe_ID e \<notin> APIID ` set (epl_matches s) \<and>
                  epl_matches s' = epl_matches s @ [insert_row m1])"
          by (rule exI [of _ ?m]) (insert k(4) f1, simp)
        with k show ?thesis by simp
      qed
    qed
  qed
qed

lemma scores_sync_event_cases:
  assumes "scores_sync_event ev (res, s) = (res', s')"
  shows "bets s' = bets s \<and> users s' = users s \<and>
         (epl_matches s' = epl_matches s \<or>
          (\<exists>m1. APIID m1 = sc_ID ev \<and> \<not> Calculated m1 \<and>
               (epl_matches s' =
                  map (\<lambda>row. if APIID row = sc_ID ev then merge_row m1 row else row)
                    (epl_matches s) \<or>
                sc_ID ev \<notin> APIID ` set (epl_matches s) \<and>
                  epl_matches s' = epl_matches s @ [insert_row m1])))"
proof -
  let ?m = "processScoreEvent ev"
  obtain g s1 where g: "GetMatchByAPIID (sc_ID ev) s = (g, s1)"
    by (cases "GetMatchByAPIID (sc_ID ev) s")
  note t1 = GetMatch_tables [OF g]
  show ?thesis
  proof (cases g)
    case (Inr existing)
    let ?m1 = "?m\<lparr> HomeOdds := HomeOdds existing, DrawOdds := DrawOdds existing,
                   AwayOdds := AwayOdds existing \<rparr>"
    have f1: "APIID ?m1 = sc_ID ev" "\<not> Calculated ?m1" by (simp_all add: processScoreEvent_fields)
    obtain u s2 where u: "UpdateMatchByAPIID (sc_ID ev) ?m1 s1 = (u, s2)"
      by (cases "UpdateMatchByAPIID (sc_ID ev) ?m1 s1")
    from assms g Inr u have s2: "s' = s2"
      by (cases u) (simp_all add: scores_sync_event_def Let_def processScoreEvent_fields)
    show ?thesis
    proof (cases u)
      case (Inl err)
      with UpdateMatch_fail [of "sc_ID ev" ?m1 s1 err s2] u s2 t1 show ?thesis by simp
    next
      case (Inr x)
      with UpdateMatch_ok [of "sc_ID ev" ?m1 s1 x s2] u s2 t1
      have k: "bets s' = bets s" "users s' = users s"
        "epl_matches s' =
           map (\<lambda>row. if APIID row = sc_ID ev then merge_row ?m1 row else row) (epl_matches s)"
        by simp_all
      have "\<exists>m1. APIID m1 = sc_ID ev \<and> \<not> Calculated m1 \<and>
               (epl_matches s' =
                  map (\<lambda>row. if APIID row = sc_ID ev then merge_row m1 row else row)
                    (epl_matches s) \<or>
                sc_ID ev \<notin> APIID ` set (epl_matches s) \<and>
                  epl_matches s' = epl_matches s @ [insert_row m1])"
        by (rule exI [of _ ?m1]) (simp add: k f1)
      with k show ?thesis by simp
    qed
  next
    case (Inl err)
    let ?m1 = "?m\<lparr>HomeOdds := None, DrawOdds := None, AwayOdds := None\<rparr>"
    have f1: "APIID ?m1 = sc_ID ev" "\<not> Calculated ?m1" by (simp_all add: processScoreEvent_fields)
    obtain u s2 where u: "UpsertMatch ?m1 s1 = (u, s2)" by (cases "UpsertMatch ?m1 s1")
    note c = UpsertMatch_cases [OF u]
    from assms g Inl u have s2: "s' = s2"
      by (cases u) (simp_all add: scores_sync_event_def Let_def processScoreEvent_fields)
    from c s2 t1 f1
    have k: "bets s' = bets s" "users s' = users s"
      "epl_matches s' = epl_matches s \<or>
       epl_matches s' =
           map (\<lambda>row. if APIID row = sc_ID ev then merge_row ?m1 row else row) (epl_matches s) \<or>
       sc_ID ev \<notin> APIID ` set (epl_matches s) \<and>
           epl_matches s' = epl_matches s @ [insert_row ?m1]"
      by auto
    show ?thesis
    proof (cases "epl_matches s' = epl_matches s")
      case True
      with k show ?thesis by simp
    next
      case False
      have "\<exists>m1. APIID m1 = sc_ID ev \<and> \<not> Calculated m1 \<and>
               (epl_matches s' =
                  map (\<lambda>row. if APIID row = sc_ID ev then merge_row m1 row else row)
                    (epl_matches s) \<or>
                sc_ID ev \<notin> APIID ` set (epl_matches s) \<and>
                  epl_matches s' = epl_matches s @ [insert_row m1])"
        by (rule exI [of _ ?m1]) (insert k(3) False f1, simp)
      with k show ?thesis by simp
    qed
  qed
qed

text \<open>A score record that the loop leaves out of both counters has changed no table.\<close>

lemma scores_sync_event_left_out:
  assumes "scores_sync_event ev (res, s) = (res, s')"
  shows "epl_matches s' = epl_matches s \<and> bets s' = bets s \<and> users s' = users s"
proof -
  let ?m = "processScoreEvent ev"
  have ne: "res \<noteq> res\<lparr>sr_updated := sr_updated res + 1\<rparr>"
    "res \<noteq> res\<lparr>sr_created := sr_created res + 1\<rparr>"
    by (cases res; simp)+
  obtain g s1 where g: "GetMatchByAPIID (sc_ID ev) s = (g, s1)"
    by (cases "GetMatchByAPIID (sc_ID ev) s")
  note t1 = GetMatch_tables [OF g]
  show ?thesis
  proof (cases g)
    case (Inr existing)
    let ?m1 = "?m\<lparr> HomeOdds := HomeOdds existing, DrawOdds := DrawOdds existing,
                   AwayOdds := AwayOdds existing \<rparr>"
    obtain u s2 where u: "UpdateMatchByAPIID (sc_ID ev) ?m1 s1 = (u, s2)"
      by (cases "UpdateMatchByAPIID (sc_ID ev) ?m1 s1")
    show ?thesis
    proof (cases u)
      case (Inl err)
      with assms g Inr u have "s' = s2"
        by (simp add: scores_sync_event_def Let_def processScoreEvent_fields)
      with UpdateMatch_fail [of "sc_ID ev" ?m1 s1 err s2] u Inl t1 show ?thesis by simp
    next
      case (Inr x)
      with assms g \<open>g = Inr existing\<close> u have "res = res\<lparr>sr_updated := sr_updated res + 1\<rparr>"
        by (simp add: scores_sync_event_def Let_def processScoreEvent_fields)
      with ne show ?thesis by simp
    qed
  next
    case (Inl err)
    let ?m1 = "?m\<lparr>HomeOdds := None, DrawOdds := None, AwayOdds := None\<rparr>"
    obtain u s2 where u: "UpsertMatch ?m1 s1 = (u, s2)" by (cases "UpsertMatch ?m1 s1")
    note c = UpsertMatch_cases [OF u]
    show ?thesis
    proof (cases u)
      case (Inl err2)
      with assms g \<open>g = Inl err\<close> u have "s' = s2"
        by (simp add: scores_sync_event_def Let_def processScoreEvent_fields)
      with c Inl t1 show ?thesis by simp
    next
      case (Inr x)
      with assms g \<open>g = Inl err\<close> u have "res = res\<lparr>sr_created := sr_created res + 1\<rparr>"
        by (simp add: scores_sync_event_def Let_def processScoreEvent_fields)
      with ne show ?thesis by simp
    qed
  qed
qed

lemma decode_events_malformed:
  "Malformed \<in> set body \<Longrightarrow> decode_events body = None"
  by (induction body rule: decode_events.induct) auto

lemma decode_events_all:
  "Malformed \<notin> set body \<Longrightarrow> \<exists>events. map Decodes events = body \<and> decode_events body = Some events"
proof (induction body rule: decode_events.induct)
  case 1
  then show ?case by simp
next
  case (2 rs)
  then show ?case by simp
next
  case (3 e rs)
  then obtain es where "map Decodes es = rs" "decode_events rs = Some es" by auto
  then show ?case by (intro exI [of _ "e # es"]) simp
qed

lemma rows_grow_refl: "rows_grow rows rows"
  by (auto simp: rows_grow_def)

lemma rows_grow_trans:
  assumes "rows_grow a b" and "rows_grow b c"
  shows "rows_grow a c"
  unfolding rows_grow_def
proof (intro conjI allI impI)
  show "length a \<le> length c" using assms by (simp add: rows_grow_def)
  show "distinct (map APIID c)" if "distinct (map APIID a)"
    using assms that by (simp add: rows_grow_def)
next
  fix i assume i: "i < length a"
  with assms(1) have ib: "i < length b" by (simp add: rows_grow_def)
  from assms(1) i have "APIID (b ! i) = APIID (a ! i) \<and> Calculated (b ! i) = Calculated (a ! i) \<and>
      Result (b ! i) = Result (a ! i)" by (simp add: rows_grow_def)
  moreover from assms(2) ib have "APIID (c ! i) = APIID (b ! i) \<and>
      Calculated (c ! i) = Calculated (b ! i) \<and> Result (c ! i) = Result (b ! i)"
    by (simp add: rows_grow_def)
  ultimately show "APIID (c ! i) = APIID (a ! i)" "Calculated (c ! i) = Calculated (a ! i)"
    "Result (c ! i) = Result (a ! i)" by simp_all
next
  fix i assume i: "length a \<le> i \<and> i < length c"
  show "\<not> Calculated (c ! i)"
  proof (cases "i < length b")
    case True
    with assms(1) i have "\<not> Calculated (b ! i)" by (simp add: rows_grow_def)
    moreover from assms(2) True have "Calculated (c ! i) = Calculated (b ! i)"
      by (simp add: rows_grow_def)
    ultimately show ?thesis by simp
  next
    case False
    with assms(2) i show ?thesis by (simp add: rows_grow_def)
  qed
qed

lemma rows_grow_merge:
  "rows_grow rows (map (\<lambda>row. if APIID row = a then merge_row m row else row) rows)"
proof -
  have "map APIID (map (\<lambda>row. if APIID row = a then merge_row m row else row) rows) = map APIID rows"
    by (simp add: merge_row_fields)
  then show ?thesis
    unfolding rows_grow_def by (auto simp: merge_row_fields simp del: map_map)
qed

lemma rows_grow_insert:
  assumes "APIID m \<notin> APIID ` set rows" and "\<not> Calculated m"
  shows "rows_grow rows (rows @ [insert_row m])"
  using assms
  by (auto simp: rows_grow_def nth_append insert_row_fields)

lemma odds_sync_event_grow:
  assumes "odds_sync_event e (res, s) = (res', s')"
  shows "bets s' = bets s \<and> users s' = users s \<and> rows_grow (epl_matches s) (epl_matches s')"
  using odds_sync_event_cases [OF assms]
  by (auto simp: rows_grow_refl rows_grow_merge rows_grow_insert)

lemma scores_sync_event_grow:
  assumes "scores_sync_event ev (res, s) = (res', s')"
  shows "bets s' = bets s \<and> users s' = users s \<and> rows_grow (epl_matches s) (epl_matches s')"
  using scores_sync_event_cases [OF assms]
  by (auto simp: rows_grow_refl rows_grow_merge rows_grow_insert)

lemma fold_odds_grow:
  "fold odds_sync_event es (res, s) = (res', s') \<Longrightarrow>
     bets s' = bets s \<and> users s' = users s \<and> rows_grow (epl_matches s) (epl_matches s')"
proof (induction es arbitrary: res s)
  case Nil
  then show ?case by (simp add: rows_grow_refl)
next
  case (Cons e es)
  obtain r1 s1 where st: "odds_sync_event e (res, s) = (r1, s1)"
    by (cases "odds_sync_event e (res, s)")
  with Cons.prems have "fold odds_sync_event es (r1, s1) = (res', s')" by simp
  from Cons.IH [OF this] odds_sync_event_grow [OF st]
  have "bets s' = bets s" "users s' = users s"
    "rows_grow (epl_matches s) (epl_matches s1)" "rows_grow (epl_matches s1) (epl_matches s')"
    by simp_all
  with rows_grow_trans [of "epl_matches s" "epl_matches s1" "epl_matches s'"] show ?case
    by simp
qed

lemma fold_scores_grow:
  "fold scores_sync_event es (res, s) = (res', s') \<Longrightarrow>
     bets s' = bets s \<and> users s' = users s \<and> rows_grow (epl_matches s) (epl_matches s')"
proof (induction es arbitrary: res s)
  case Nil
  then show ?case by (simp add: rows_grow_refl)
next
  case (Cons e es)
  obtain r1 s1 where st: "scores_sync_event e (res, s) = (r1, s1)"
    by (cases "scores_sync_event e (res, s)")
  with Cons.prems have "fold scores_sync_event es (r1, s1) = (res', s')" by simp
  from Cons.IH [OF this] scores_sync_event_grow [OF st]
  have "bets s' = bets s" "users s' = users s"
    "rows_grow (epl_matches s) (epl_matches s1)" "rows_grow (epl_matches s1) (epl_matches s')"
    by simp_all
  with rows_grow_trans [of "epl_matches s" "epl_matches s1" "epl_matches s'"] show ?case
    by simp
qed

lemma oddsSyncHandler_grow:
  "bets (snd (oddsSyncHandler k reply s)) = bets s \<and>
   rows_grow (epl_matches s) (epl_matches (snd (oddsSyncHandler k reply s)))"
proof (cases "fetchOddsFromAPI k reply")
  case (Inl e)
  then show ?thesis by (simp add: oddsSyncHandler_def rows_grow_refl)
next
  case (Inr events)
  obtain r1 s1 where f: "fold odds_sync_event events (\<lparr>created = 0, updated = 0, skipped = 0\<rparr>, s) = (r1, s1)"
    by (cases "fold odds_sync_event events (\<lparr>created = 0, updated = 0, skipped = 0\<rparr>, s)")
  with Inr have "snd (oddsSyncHandler k reply s) = s1" by (auto simp: oddsSyncHandler_def)
  with fold_odds_grow [OF f] show ?thesis by simp
qed

lemma scoresSyncHandler_grow:
  "bets (snd (scoresSyncHandler k reply s)) = bets s \<and>
   rows_grow (epl_matches s) (epl_matches (snd (scoresSyncHandler k reply s)))"
proof (cases "fetchScoresFromAPI k reply")
  case (Inl e)
  then show ?thesis by (simp add: scoresSyncHandler_def rows_grow_refl)
next
  case (Inr events)
  obtain r1 s1 where f: "fold scores_sync_event events (\<lparr>sr_created = 0, sr_updated = 0\<rparr>, s) = (r1, s1)"
    by (cases "fold scores_sync_event events (\<lparr>sr_created = 0, sr_updated = 0\<rparr>, s)")
  with Inr have "snd (scoresSyncHandler k reply s) = s1" by (auto simp: scoresSyncHandler_def)
  with fold_scores_grow [OF f] show ?thesis by simp
qed

lemma settled_consistent_cong:
  "epl_matches s' = epl_matches s \<Longrightarrow> bets s' = bets s \<Longrightarrow>
     settled_consistent s' = settled_consistent s"
  by (simp add: settled_consistent_def)

lemma consistent_grow:
  assumes "settled_consistent s" and "bets s' = bets s"
    and "rows_grow (epl_matches s) (epl_matches s')"
  shows "settled_consistent s'"
  unfolding settled_consistent_def
proof (intro ballI impI)
  fix row' assume r': "row' \<in> set (epl_matches s')" and c: "Calculated row'"
  from r' obtain i where i: "i < length (epl_matches s')" "epl_matches s' ! i = row'"
    by (auto simp: in_set_conv_nth)
  from assms(3) i c have il: "i < length (epl_matches s)"
    by (auto simp: rows_grow_def not_less [symmetric])
  with assms(3) i have same: "APIID row' = APIID (epl_matches s ! i)"
    "Calculated row' = Calculated (epl_matches s ! i)" "Result row' = Result (epl_matches s ! i)"
    by (auto simp: rows_grow_def)
  from il have "epl_matches s ! i \<in> set (epl_matches s)" by simp
  with assms(1) c same assms(2)
  show "Result row' \<noteq> None \<and>
          (\<forall>b \<in> set (bets s'). match_id b = APIID row' \<longrightarrow> status b \<noteq> Some ''pending'')"
    by (simp add: settled_consistent_def)
qed

lemma calculated_kept_grow:
  "rows_grow (epl_matches s) (epl_matches s') \<Longrightarrow> calculated_kept s s'"
  by (auto simp: rows_grow_def calculated_kept_def)

lemma calculated_kept_refl: "calculated_kept s s"
  by (simp add: calculated_kept_def)

lemma calculated_kept_trans:
  "calculated_kept a b \<Longrightarrow> calculated_kept b c \<Longrightarrow> calculated_kept a c"
  unfolding calculated_kept_def by (intro allI impI) simp

lemma calcHandler_consistent:
  assumes "settled_consistent s"
  shows "settled_consistent (snd (calcHandler s))"
proof (cases s rule: calcHandler_cases)
  case nothing
  with assms settled_consistent_cong [of "snd (calcHandler s)" s] show ?thesis by simp
next
  case (loop s1 summary)
  from loop(1,2) assms settled_consistent_cong [of s1 s] have "settled_consistent s1" by simp
  from calc_loop_consistent [OF loop(4) this] show ?thesis .
qed

lemma calcHandler_kept:
  assumes "distinct (map APIID (epl_matches s))"
  shows "calculated_kept s (snd (calcHandler s))"
  unfolding calculated_kept_def
proof (intro allI impI)
  fix i assume i: "i < length (epl_matches s)" and c: "Calculated (epl_matches s ! i)"
  from c have nc: "\<not> is_candidate (epl_matches s ! i)" by (simp add: is_candidate_def)
  from calcHandler_frame(1) [OF assms i nc] calcHandler_shape [of s] i c
  show "i < length (epl_matches (snd (calcHandler s))) \<and>
        APIID (epl_matches (snd (calcHandler s)) ! i) = APIID (epl_matches s ! i) \<and>
        Calculated (epl_matches (snd (calcHandler s)) ! i) \<and>
        Result (epl_matches (snd (calcHandler s)) ! i) = Result (epl_matches s ! i)"
    by simp
qed

lemma engine_step_inv:
  assumes "engine_step s s'" and "settled_consistent s" and "distinct (map APIID (epl_matches s))"
  shows "settled_consistent s' \<and> distinct (map APIID (epl_matches s')) \<and> calculated_kept s s'"
  using assms(1)
proof cases
  case (odds_sync apiKey reply fl)
  let ?s = "s\<lparr>faults := fl\<rparr>"
  from oddsSyncHandler_grow [of apiKey reply ?s] odds_sync
  have g: "bets s' = bets s" "rows_grow (epl_matches s) (epl_matches s')" by simp_all
  from consistent_grow [OF assms(2) g] g(2) assms(3) calculated_kept_grow [OF g(2)]
  show ?thesis by (simp add: rows_grow_def)
next
  case (scores_sync apiKey reply fl)
  let ?s = "s\<lparr>faults := fl\<rparr>"
  from scoresSyncHandler_grow [of apiKey reply ?s] scores_sync
  have g: "bets s' = bets s" "rows_grow (epl_matches s) (epl_matches s')" by simp_all
  from consistent_grow [OF assms(2) g] g(2) assms(3) calculated_kept_grow [OF g(2)]
  show ?thesis by (simp add: rows_grow_def)
next
  case (settle fl)
  let ?s = "s\<lparr>faults := fl\<rparr>"
  from assms(2) have c: "settled_consistent ?s" by (simp add: settled_consistent_def)
  from assms(3) have d: "distinct (map APIID (epl_matches ?s))" by simp
  from calcHandler_consistent [OF c] calcHandler_kept [OF d] calcHandler_shape [of ?s] d settle
  show ?thesis by (simp add: calculated_kept_def)
qed

lemma reach_inv:
  assumes "engine_step\<^sup>*\<^sup>* s s'"
    and "settled_consistent s" and "distinct (map APIID (epl_matches s))"
  shows "settled_consistent s' \<and> distinct (map APIID (epl_matches s')) \<and> calculated_kept s s'"
  using assms(1)
proof (induction rule: rtranclp_induct)
  case base
  with assms(2,3) show ?case by (simp add: calculated_kept_refl)
next
  case (step y z)
  from step.IH have i: "settled_consistent y" "distinct (map APIID (epl_matches y))"
    "calculated_kept s y" by simp_all
  from engine_step_inv [OF step.hyps(2) i(1,2)]
  have j: "settled_consistent z" "distinct (map APIID (epl_matches z))" "calculated_kept y z"
    by simp_all
  from calculated_kept_trans [OF i(3) j(3)] j show ?case by simp
qed

section \<open>Settlement\<close>

text \<open>
  Claim C1. A match that the settler settles has both scores; its result is \<open>home\<close>
  when the home score is greater, \<open>away\<close> when it is smaller, \<open>draw\<close> when the
  scores are equal. That result is the one written to the row of the match, which
  is marked calculated, and the one reported in the entry added to the summary,
  whose count grows by one. Every wager on that match with status \<open>pending\<close> becomes
  \<open>won\<close> when its selection is the result and \<open>lost\<close> otherwise, every other wager is
  untouched, and each user's balance grows by the potential payouts of that user's
  pending wagers on the match whose selection is the result (by nothing for a user
  without such a wager).
\<close>

theorem settlement_correct:
  assumes "calc_match m ((n, cms), s) = ((n', cms'), s')" and "n' \<noteq> n"
  shows "\<exists>h a r. HomeScore m = Some h \<and> AwayScore m = Some a \<and>
     r = (if h > a then ''home'' else if h < a then ''away'' else ''draw'') \<and>
     epl_matches s' = map (\<lambda>row. if APIID row = APIID m
                                then row\<lparr>Calculated := True, Result := Some r\<rparr>
                                else row) (epl_matches s) \<and>
     n' = n + 1 \<and>
     cms' = cms @ [\<lparr>cm_home_team = HomeTeam m, cm_away_team = AwayTeam m,
                    cm_score = (h, a), cm_result = r\<rparr>] \<and>
     bets s' = map (\<lambda>b. if match_id b = APIID m \<and> status b = Some ''pending''
                        then b\<lparr>status := Some (if bet_type b = r then ''won'' else ''lost'')\<rparr>
                        else b) (bets s) \<and>
     users s' = map (\<lambda>u. u\<lparr>money := money u + sum_list (map potential_win
                  (filter (\<lambda>b. match_id b = APIID m \<and> status b = Some ''pending'' \<and>
                                 bet_type b = r \<and> user_id b = users_id u) (bets s)))\<rparr>) (users s)"
proof -
  from assms obtain h a where hs: "HomeScore m = Some h" "AwayScore m = Some a"
    by (auto simp: calc_match_def split: option.splits)
  define r where "r = match_result h a"
  from assms hs obtain x s1 where ub: "UpdateBetsStatusAndUserMoney (APIID m) r s = (Inr x, s1)"
    by (auto simp: calc_match_def r_def Let_def split: prod.splits sum.splits)
  from assms hs ub obtain y where uc: "UpdateMatchCalculated (APIID m) r s1 = (Inr y, s')"
    by (auto simp: calc_match_def r_def Let_def split: prod.splits sum.splits)
  from assms hs ub uc have cnt: "n' = n + 1"
    and ent: "cms' = cms @ [\<lparr>cm_home_team = HomeTeam m, cm_away_team = AwayTeam m,
                    cm_score = (h, a), cm_result = r\<rparr>]"
    by (simp_all add: calc_match_def r_def Let_def)
  obtain f s2 where sc: "store_call s1 = (f, s2)" by (cases "store_call s1")
  from uc sc have nf: "\<not> f" by (auto simp: UpdateMatchCalculated_def)
  from uc sc nf have "bets s' = bets s2 \<and> users s' = users s2 \<and>
      epl_matches s' = map (mark_calculated (APIID m) r) (epl_matches s2)"
    by (auto simp: UpdateMatchCalculated_def)
  with store_call_tables [OF sc] have eq: "bets s' = bets s1" "users s' = users s1"
    "epl_matches s' = map (mark_calculated (APIID m) r) (epl_matches s1)" by simp_all
  have sb: "settle_bet (APIID m) r = (\<lambda>b. if match_id b = APIID m \<and> status b = Some ''pending''
                        then b\<lparr>status := Some (if bet_type b = r then ''won'' else ''lost'')\<rparr>
                        else b)"
    by (rule ext) (simp add: settle_bet_def is_pending_on_def new_status_def)
  have mk: "mark_calculated (APIID m) r = (\<lambda>row. if APIID row = APIID m
                                then row\<lparr>Calculated := True, Result := Some r\<rparr>
                                else row)"
    by (rule ext) (simp add: mark_calculated_def)
  have rr: "r = (if h > a then ''home'' else if h < a then ''away'' else ''draw'')"
    by (simp add: r_def match_result_def)
  have M: "epl_matches s' = map (\<lambda>row. if APIID row = APIID m
                                then row\<lparr>Calculated := True, Result := Some r\<rparr>
                                else row) (epl_matches s)"
    using UpdateBets_ok [OF ub] eq(3) by (simp add: mk)
  have B: "bets s' = map (\<lambda>b. if match_id b = APIID m \<and> status b = Some ''pending''
                        then b\<lparr>status := Some (if bet_type b = r then ''won'' else ''lost'')\<rparr>
                        else b) (bets s)"
    using UpdateBets_ok [OF ub] eq by (simp add: sb)
  have U: "users s' = map (\<lambda>u. u\<lparr>money := money u + sum_list (map potential_win
                  (filter (\<lambda>b. match_id b = APIID m \<and> status b = Some ''pending'' \<and>
                                 bet_type b = r \<and> user_id b = users_id u) (bets s)))\<rparr>) (users s)"
    using UpdateBets_ok [OF ub] eq by (simp add: is_pending_on_def)
  show ?thesis
    by (rule exI [of _ h], rule exI [of _ a], rule exI [of _ r])
       (intro conjI; fact hs rr M cnt ent B U)
qed

theorem settlement_correct_witness:
  "calc_match ex_match ((0, []), ex_store []) =
     ((1, [\<lparr>cm_home_team = ''Arsenal'', cm_away_team = ''Chelsea'', cm_score = (2, 1),
            cm_result = ''home''\<rparr>]),
      \<lparr>epl_matches = [ex_match\<lparr>Calculated := True, Result := Some ''home''\<rparr>],
       bets = [(ex_bets ! 0)\<lparr>status := Some ''won''\<rparr>, (ex_bets ! 1)\<lparr>status := Some ''lost''\<rparr>,
               ex_bets ! 2],
       users = [\<lparr>users_id = ''u1'', money = 7100\<rparr>, \<lparr>users_id = ''u2'', money = 7000\<rparr>],
       faults = []\<rparr>)
   \<and> (\<exists>h a r. HomeScore ex_match = Some h \<and> AwayScore ex_match = Some a \<and>
     r = (if h > a then ''home'' else if h < a then ''away'' else ''draw'') \<and>
     [ex_match\<lparr>Calculated := True, Result := Some ''home''\<rparr>] =
       map (\<lambda>row. if APIID row = APIID ex_match
                   then row\<lparr>Calculated := True, Result := Some r\<rparr>
                   else row) [ex_match] \<and>
     (1::nat) = 0 + 1 \<and>
     [\<lparr>cm_home_team = ''Arsenal'', cm_away_team = ''Chelsea'', cm_score = (2, 1),
            cm_result = ''home''\<rparr>] =
       [] @ [\<lparr>cm_home_team = HomeTeam ex_match, cm_away_team = AwayTeam ex_match,
               cm_score = (h, a), cm_result = r\<rparr>] \<and>
     [(ex_bets ! 0)\<lparr>status := Some ''won''\<rparr>, (ex_bets ! 1)\<lparr>status := Some ''lost''\<rparr>,
               ex_bets ! 2] = map (\<lambda>b. if match_id b = APIID ex_match \<and> status b = Some ''pending''
                        then b\<lparr>status := Some (if bet_type b = r then ''won'' else ''lost'')\<rparr>
                        else b) ex_bets \<and>
     [\<lparr>users_id = ''u1'', money = 7100\<rparr>, \<lparr>users_id = ''u2'', money = 7000\<rparr>] =
       map (\<lambda>u. u\<lparr>money := money u + sum_list (map potential_win
                  (filter (\<lambda>b. match_id b = APIID ex_match \<and> status b = Some ''pending'' \<and>
                                 bet_type b = r \<and> user_id b = users_id u) ex_bets))\<rparr>) ex_users)"
proof -
  have run: "calc_match ex_match ((0, []), ex_store []) =
     ((1, [\<lparr>cm_home_team = ''Arsenal'', cm_away_team = ''Chelsea'', cm_score = (2, 1),
            cm_result = ''home''\<rparr>]),
      \<lparr>epl_matches = [ex_match\<lparr>Calculated := True, Result := Some ''home''\<rparr>],
       bets = [(ex_bets ! 0)\<lparr>status := Some ''won''\<rparr>, (ex_bets ! 1)\<lparr>status := Some ''lost''\<rparr>,
               ex_bets ! 2],
       users = [\<lparr>users_id = ''u1'', money = 7100\<rparr>, \<lparr>users_id = ''u2'', money = 7000\<rparr>],
       faults = []\<rparr>)"
    by (simp add: settle_defs ex_defs Let_def)
  have ne: "(1::nat) \<noteq> 0" by simp
  from settlement_correct [OF run ne] run show ?thesis
    by (simp add: ex_store_def)
qed

text \<open>
  Claim C2. When the transaction has begun, the bulk update of the wagers has been
  applied inside it, and a balance credit then fails, the settlement of the match
  reports the error and leaves the wagers, the balances and the matches as they
  were: no status changes, no balance changes, the match is not marked calculated
  and the summary does not count it.
\<close>

theorem settlement_atomic:
  assumes scores: "HomeScore m = Some h" "AwayScore m = Some a"
    and started: "store_call s = (False, s0)"
    and update: "tx_update_bets (APIID m) (match_result h a) s0 = (Inr rows, t1)"
    and credit: "credit_winners (winning_bets rows) t1 = (Inl e, t2)"
  shows "\<exists>s1. calc_match m (summary, s) = (summary, s1) \<and>
           UpdateBetsStatusAndUserMoney (APIID m) (match_result h a) s = (Inl e, s1) \<and>
           bets s1 = bets s \<and> users s1 = users s \<and> epl_matches s1 = epl_matches s"
proof -
  have ub: "UpdateBetsStatusAndUserMoney (APIID m) (match_result h a) s = (Inl e, rollback s0 t2)"
    using started update credit by (simp add: UpdateBetsStatusAndUserMoney_def)
  have cm: "calc_match m (summary, s) = (summary, rollback s0 t2)"
    using scores ub by (cases summary) (simp add: calc_match_def)
  from UpdateBets_fail [OF ub] ub cm show ?thesis by blast
qed

theorem settlement_atomic_witness:
  "HomeScore ex_match = Some 2 \<and> AwayScore ex_match = Some 1 \<and>
   store_call (ex_store [False, False, True]) = (False, ex_store [False, True]) \<and>
   tx_update_bets (APIID ex_match) (match_result 2 1) (ex_store [False, True]) =
     (Inr [(''u1'', 2100, ''won''), (''u2'', 1650, ''lost'')],
      (ex_store [True])\<lparr>bets := map (settle_bet ''m1'' ''home'') ex_bets\<rparr>) \<and>
   credit_winners (winning_bets [(''u1'', 2100, ''won''), (''u2'', 1650, ''lost'')])
      ((ex_store [True])\<lparr>bets := map (settle_bet ''m1'' ''home'') ex_bets\<rparr>) =
     (Inl IOError, (ex_store [])\<lparr>bets := map (settle_bet ''m1'' ''home'') ex_bets\<rparr>) \<and>
   (\<exists>s1. calc_match ex_match ((0, []), ex_store [False, False, True]) = ((0, []), s1) \<and>
      UpdateBetsStatusAndUserMoney (APIID ex_match) (match_result 2 1)
        (ex_store [False, False, True]) = (Inl IOError, s1) \<and>
      bets s1 = ex_bets \<and> users s1 = ex_users \<and> epl_matches s1 = [ex_match])"
proof -
  have a: "HomeScore ex_match = Some 2" "AwayScore ex_match = Some 1"
    by (simp_all add: ex_match_def)
  have b: "store_call (ex_store [False, False, True]) = (False, ex_store [False, True])"
    by (simp add: store_call_def ex_store_def)
  have c: "tx_update_bets (APIID ex_match) (match_result 2 1) (ex_store [False, True]) =
     (Inr [(''u1'', 2100, ''won''), (''u2'', 1650, ''lost'')],
      (ex_store [True])\<lparr>bets := map (settle_bet ''m1'' ''home'') ex_bets\<rparr>)"
    by (simp add: settle_defs ex_defs Let_def)
  have d: "credit_winners (winning_bets [(''u1'', 2100, ''won''), (''u2'', 1650, ''lost'')])
      ((ex_store [True])\<lparr>bets := map (settle_bet ''m1'' ''home'') ex_bets\<rparr>) =
     (Inl IOError, (ex_store [])\<lparr>bets := map (settle_bet ''m1'' ''home'') ex_bets\<rparr>)"
    by (simp add: settle_defs ex_store_def)
  from settlement_atomic [OF a b c d, of "(0, [])"] a b c d show ?thesis
    by (simp add: ex_store_def)
qed

text \<open>
  Claim C3. External ids being unique, a second \<open>Settle()\<close> after a first one leaves
  every match that is calculated after the first call as it is (the flag and the
  result with the rest of the row), leaves every wager on such a match as it is, and
  leaves the balances as if the wagers on that match did not exist. When no store
  call failed during the first call, the second call changes nothing at all:
  matches, wagers and balances are the same.
\<close>

theorem settle_idempotent:
  assumes "distinct (map APIID (epl_matches s0))"
    and "s1 = snd (calcHandler s0)" and "s2 = snd (calcHandler (s1\<lparr>faults := fl\<rparr>))"
  shows "(\<forall>i < length (epl_matches s1). Calculated (epl_matches s1 ! i) \<longrightarrow>
            epl_matches s2 ! i = epl_matches s1 ! i \<and>
            (\<forall>j < length (bets s1). match_id (bets s1 ! j) = APIID (epl_matches s1 ! i) \<longrightarrow>
               bets s2 ! j = bets s1 ! j) \<and>
            users s2 =
              users (snd (calcHandler
                (without_wagers_on (APIID (epl_matches s1 ! i)) (s1\<lparr>faults := fl\<rparr>))))) \<and>
         (faults s0 = [] \<longrightarrow>
            epl_matches s2 = epl_matches s1 \<and> bets s2 = bets s1 \<and> users s2 = users s1)"
proof (intro conjI allI impI)
  let ?t = "s1\<lparr>faults := fl\<rparr>"
  from calcHandler_shape [of s0] assms(1,2)
  have d1: "distinct (map APIID (epl_matches ?t))" by simp
  {
    fix i assume i: "i < length (epl_matches s1)" and c: "Calculated (epl_matches s1 ! i)"
    from i have it: "i < length (epl_matches ?t)" by simp
    from c have nc: "\<not> is_candidate (epl_matches ?t ! i)" by (simp add: is_candidate_def)
    from calcHandler_frame(1) [OF d1 it nc] assms(3)
    show "epl_matches s2 ! i = epl_matches s1 ! i" by simp
    from not_candidate_id [OF d1 it nc]
    have "APIID (epl_matches s1 ! i) \<notin> APIID ` set (filter is_candidate (epl_matches ?t))"
      by simp
    from calcHandler_without [OF this] assms(3)
    show "users s2 =
              users (snd (calcHandler
                (without_wagers_on (APIID (epl_matches s1 ! i)) (s1\<lparr>faults := fl\<rparr>))))"
      by (simp add: without_fields)
    fix j assume j: "j < length (bets s1)"
      and mj: "match_id (bets s1 ! j) = APIID (epl_matches s1 ! i)"
    from calcHandler_frame(2) [OF d1 it nc, of j] j mj assms(3)
    show "bets s2 ! j = bets s1 ! j" by simp
  }
  {
    assume nf: "faults s0 = []"
    from calcHandler_nofault_settles_all [OF nf] assms(2)
    have "filter is_candidate (epl_matches ?t) = []" by simp
    from calcHandler_no_candidates [OF this] assms(3)
    show "epl_matches s2 = epl_matches s1" "bets s2 = bets s1" "users s2 = users s1"
      by simp_all
  }
qed

theorem settle_idempotent_witness:
  "distinct (map APIID (epl_matches (ex_store []))) \<and>
   faults (ex_store []) = [] \<and>
   snd (calcHandler (ex_store [])) = ex_settled \<and>
   (0::nat) < length (epl_matches ex_settled) \<and>
   Calculated (epl_matches ex_settled ! 0) \<and>
   (0::nat) < length (bets ex_settled) \<and>
   match_id (bets ex_settled ! 0) = APIID (epl_matches ex_settled ! 0) \<and>
   epl_matches (snd (calcHandler (ex_settled\<lparr>faults := [False, True]\<rparr>))) ! 0 =
     epl_matches ex_settled ! 0 \<and>
   bets (snd (calcHandler (ex_settled\<lparr>faults := [False, True]\<rparr>))) ! 0 = bets ex_settled ! 0 \<and>
   users (snd (calcHandler (ex_settled\<lparr>faults := [False, True]\<rparr>))) =
     users (snd (calcHandler (without_wagers_on (APIID (epl_matches ex_settled ! 0))
                                (ex_settled\<lparr>faults := [False, True]\<rparr>)))) \<and>
   epl_matches (snd (calcHandler (ex_settled\<lparr>faults := [False, True]\<rparr>))) =
     epl_matches ex_settled \<and>
   bets (snd (calcHandler (ex_settled\<lparr>faults := [False, True]\<rparr>))) = bets ex_settled \<and>
   users (snd (calcHandler (ex_settled\<lparr>faults := [False, True]\<rparr>))) = users ex_settled"
proof -
  have d: "distinct (map APIID (epl_matches (ex_store [])))" by (simp add: ex_store_def)
  have nf: "faults (ex_store []) = []" by (simp add: ex_store_def)
  have s1: "ex_settled = snd (calcHandler (ex_store []))"
    by (simp add: calc_defs settle_defs ex_defs ex_settled_def Let_def)
  have s2: "snd (calcHandler (ex_settled\<lparr>faults := [False, True]\<rparr>)) =
            snd (calcHandler (ex_settled\<lparr>faults := [False, True]\<rparr>))" ..
  have i: "(0::nat) < length (epl_matches ex_settled)" by (simp add: ex_settled_def)
  have c: "Calculated (epl_matches ex_settled ! 0)" by (simp add: ex_settled_def)
  have j: "(0::nat) < length (bets ex_settled)" by (simp add: ex_settled_def)
  have mj: "match_id (bets ex_settled ! 0) = APIID (epl_matches ex_settled ! 0)"
    by (simp add: ex_settled_def ex_defs)
  note t = settle_idempotent [OF d s1 s2]
  note p = t [THEN conjunct1, THEN spec, of 0, THEN mp, OF i, THEN mp, OF c]
  note q = t [THEN conjunct2, THEN mp, OF nf]
  from p have p1: "epl_matches (snd (calcHandler (ex_settled\<lparr>faults := [False, True]\<rparr>))) ! 0 =
     epl_matches ex_settled ! 0" by (rule conjunct1)
  from p have p2: "\<forall>j < length (bets ex_settled).
      match_id (bets ex_settled ! j) = APIID (epl_matches ex_settled ! 0) \<longrightarrow>
      bets (snd (calcHandler (ex_settled\<lparr>faults := [False, True]\<rparr>))) ! j = bets ex_settled ! j"
    by (elim conjE)
  from p have p3: "users (snd (calcHandler (ex_settled\<lparr>faults := [False, True]\<rparr>))) =
     users (snd (calcHandler (without_wagers_on (APIID (epl_matches ex_settled ! 0))
                                (ex_settled\<lparr>faults := [False, True]\<rparr>))))"
    by (elim conjE)
  note p2' = p2 [THEN spec, of 0, THEN mp, OF j, THEN mp, OF mj]
  from q have q1: "epl_matches (snd (calcHandler (ex_settled\<lparr>faults := [False, True]\<rparr>))) =
     epl_matches ex_settled" by (elim conjE)
  from q have q2: "bets (snd (calcHandler (ex_settled\<lparr>faults := [False, True]\<rparr>))) =
     bets ex_settled" by (elim conjE)
  from q have q3: "users (snd (calcHandler (ex_settled\<lparr>faults := [False, True]\<rparr>))) =
     users ex_settled" by (elim conjE)
  show ?thesis
    using d nf s1 [symmetric] i c j mj p1 p2' p3 q1 q2 q3 by (intro conjI)
qed

text \<open>
  Claim C6 as stated fails: the scores sync creates a match that the feed reports
  completed with a score for the away side only. The row is stored with
  \<open>home_score = -1\<close>, so it is completed, not calculated, and both scores are
  non-null; the candidate query does not select it.
\<close>

theorem candidate_set_counterexample:
  "epl_matches (snd (scoresSyncHandler ''key''
       (Reply 200 [Decodes (ex_score_event True [\<lparr>se_Name = ''Chelsea'', se_Score = ''2''\<rparr>])])
       empty_store)) =
     [\<lparr>APIID = ''m1'', HomeTeam = ''Arsenal'', AwayTeam = ''Chelsea'', CommenceTime = 100,
       HomeOdds = None, DrawOdds = None, AwayOdds = None, Completed = True,
       HomeScore = Some (- 1), AwayScore = Some 2, Calculated = False, Result = None\<rparr>] \<and>
   Some (- 1 :: int) \<noteq> None \<and> Some (2 :: int) \<noteq> None \<and>
   fst (GetCompletedUncalculatedMatches (snd (scoresSyncHandler ''key''
       (Reply 200 [Decodes (ex_score_event True [\<lparr>se_Name = ''Chelsea'', se_Score = ''2''\<rparr>])])
       empty_store))) = Inr []"
  by (simp add: sync_defs calc_defs ex_score_event_def empty_store_def Let_def)

text \<open>
  Claim C6, amended. The candidate set is exactly the stored matches with
  \<open>completed = true\<close>, \<open>calculated = false\<close>, and both scores non-null and different
  from \<open>-1\<close>, the value stored for an absent score. In particular a match whose
  home score is null is not selected and, external ids being unique, the settler
  leaves its row as it is.
\<close>

theorem candidate_set:
  assumes "GetCompletedUncalculatedMatches s = (Inr ms, s1)"
  shows "ms = filter (\<lambda>m. Completed m \<and> \<not> Calculated m \<and> HomeScore m \<noteq> None \<and>
                          AwayScore m \<noteq> None \<and> HomeScore m \<noteq> Some (- 1) \<and>
                          AwayScore m \<noteq> Some (- 1)) (epl_matches s) \<and>
         (\<forall>i < length (epl_matches s). HomeScore (epl_matches s ! i) = None \<longrightarrow>
            epl_matches s ! i \<notin> set ms \<and>
            (distinct (map APIID (epl_matches s)) \<longrightarrow>
               epl_matches (snd (calcHandler s)) ! i = epl_matches s ! i))"
proof (intro conjI allI impI)
  from GetCompleted_cases [OF assms]
  have ms: "ms = filter is_candidate (epl_matches s)" by auto
  have "is_candidate = (\<lambda>m. Completed m \<and> \<not> Calculated m \<and> HomeScore m \<noteq> None \<and>
                          AwayScore m \<noteq> None \<and> HomeScore m \<noteq> Some (- 1) \<and>
                          AwayScore m \<noteq> Some (- 1))"
    by (rule ext) (simp add: is_candidate_def)
  with ms show "ms = filter (\<lambda>m. Completed m \<and> \<not> Calculated m \<and> HomeScore m \<noteq> None \<and>
                          AwayScore m \<noteq> None \<and> HomeScore m \<noteq> Some (- 1) \<and>
                          AwayScore m \<noteq> Some (- 1)) (epl_matches s)"
    by simp
  fix i assume i: "i < length (epl_matches s)" and h: "HomeScore (epl_matches s ! i) = None"
  from h have nc: "\<not> is_candidate (epl_matches s ! i)" by (simp add: is_candidate_def)
  with ms show "epl_matches s ! i \<notin> set ms" by simp
  assume d: "distinct (map APIID (epl_matches s))"
  from calcHandler_frame(1) [OF d i nc]
  show "epl_matches (snd (calcHandler s)) ! i = epl_matches s ! i" .
qed

theorem candidate_set_witness:
  "GetCompletedUncalculatedMatches ex_two_matches = (Inr [ex_match], ex_two_matches) \<and>
   (1::nat) < length (epl_matches ex_two_matches) \<and>
   Completed (epl_matches ex_two_matches ! 1) \<and>
   HomeScore (epl_matches ex_two_matches ! 1) = None \<and>
   distinct (map APIID (epl_matches ex_two_matches)) \<and>
   [ex_match] = filter (\<lambda>m. Completed m \<and> \<not> Calculated m \<and> HomeScore m \<noteq> None \<and>
                          AwayScore m \<noteq> None \<and> HomeScore m \<noteq> Some (- 1) \<and>
                          AwayScore m \<noteq> Some (- 1)) (epl_matches ex_two_matches) \<and>
   epl_matches ex_two_matches ! 1 \<notin> set [ex_match] \<and>
   epl_matches (snd (calcHandler ex_two_matches)) ! 1 = epl_matches ex_two_matches ! 1"
proof -
  have g: "GetCompletedUncalculatedMatches ex_two_matches = (Inr [ex_match], ex_two_matches)"
    by (simp add: calc_defs store_call_def ex_two_matches_def ex_match_def)
  have i: "(1::nat) < length (epl_matches ex_two_matches)" by (simp add: ex_two_matches_def)
  have c: "Completed (epl_matches ex_two_matches ! 1)"
    by (simp add: ex_two_matches_def ex_match_def)
  have h: "HomeScore (epl_matches ex_two_matches ! 1) = None" by (simp add: ex_two_matches_def)
  have d: "distinct (map APIID (epl_matches ex_two_matches))"
    by (simp add: ex_two_matches_def ex_match_def)
  from candidate_set [OF g] i h d g c show ?thesis by simp
qed

text \<open>
  Claim C7. From a store with unique external ids in which every calculated match
  has a result and no pending wager, every store reached by odds syncs, scores
  syncs and settlements (each under any failure schedule) is again such a store;
  and whatever operations follow, a match that is calculated stays at its place,
  stays calculated and keeps its result.
\<close>

theorem settled_terminal:
  assumes "settled_consistent s0" and "distinct (map APIID (epl_matches s0))"
    and "engine_step\<^sup>*\<^sup>* s0 s"
  shows "settled_consistent s \<and>
         (\<forall>s'. engine_step\<^sup>*\<^sup>* s s' \<longrightarrow>
            (\<forall>i < length (epl_matches s). Calculated (epl_matches s ! i) \<longrightarrow>
               i < length (epl_matches s') \<and>
               APIID (epl_matches s' ! i) = APIID (epl_matches s ! i) \<and>
               Calculated (epl_matches s' ! i) \<and>
               Result (epl_matches s' ! i) = Result (epl_matches s ! i)))"
proof (intro conjI allI impI)
  note a = reach_inv [OF assms(3) assms(1) assms(2)]
  from a show "settled_consistent s" by simp
  fix s' i
  assume r: "engine_step\<^sup>*\<^sup>* s s'" and i: "i < length (epl_matches s)"
    and c: "Calculated (epl_matches s ! i)"
  from a have "settled_consistent s" "distinct (map APIID (epl_matches s))" by simp_all
  from reach_inv [OF r this] have "calculated_kept s s'" by simp
  with i c show "i < length (epl_matches s')"
    "APIID (epl_matches s' ! i) = APIID (epl_matches s ! i)"
    "Calculated (epl_matches s' ! i)"
    "Result (epl_matches s' ! i) = Result (epl_matches s ! i)"
    by (simp_all add: calculated_kept_def)
qed

theorem settled_terminal_witness:
  "settled_consistent (ex_store []) \<and>
   distinct (map APIID (epl_matches (ex_store []))) \<and>
   engine_step\<^sup>*\<^sup>* (ex_store []) ex_settled \<and>
   settled_consistent ex_settled \<and>
   engine_step\<^sup>*\<^sup>* ex_settled
     (snd (oddsSyncHandler ''key'' (Reply 200 [Decodes (ex_odds_event ex_outcomes)])
        (ex_settled\<lparr>faults := []\<rparr>))) \<and>
   (0::nat) < length (epl_matches ex_settled) \<and>
   Calculated (epl_matches ex_settled ! 0) \<and>
   Result (epl_matches ex_settled ! 0) = Some ''home'' \<and>
   HomeOdds (epl_matches (snd (oddsSyncHandler ''key''
        (Reply 200 [Decodes (ex_odds_event ex_outcomes)]) (ex_settled\<lparr>faults := []\<rparr>))) ! 0)
     = Some 220 \<and>
   Calculated (epl_matches (snd (oddsSyncHandler ''key''
        (Reply 200 [Decodes (ex_odds_event ex_outcomes)]) (ex_settled\<lparr>faults := []\<rparr>))) ! 0) \<and>
   Result (epl_matches (snd (oddsSyncHandler ''key''
        (Reply 200 [Decodes (ex_odds_event ex_outcomes)]) (ex_settled\<lparr>faults := []\<rparr>))) ! 0)
     = Some ''home''"
proof -
  let ?s' = "snd (oddsSyncHandler ''key'' (Reply 200 [Decodes (ex_odds_event ex_outcomes)])
        (ex_settled\<lparr>faults := []\<rparr>))"
  have c0: "settled_consistent (ex_store [])" by (simp add: settled_consistent_def ex_defs)
  have d0: "distinct (map APIID (epl_matches (ex_store [])))" by (simp add: ex_store_def)
  have e1: "engine_step (ex_store []) (snd (calcHandler ((ex_store [])\<lparr>faults := []\<rparr>)))"
    by (rule engine_step.settle)
  have eq1: "snd (calcHandler ((ex_store [])\<lparr>faults := []\<rparr>)) = ex_settled"
    by (simp add: calc_defs settle_defs ex_defs ex_settled_def Let_def)
  have r1: "engine_step\<^sup>*\<^sup>* (ex_store []) ex_settled"
    using e1 unfolding eq1 by (rule r_into_rtranclp)
  have e2: "engine_step ex_settled ?s'" by (rule engine_step.odds_sync)
  have r2: "engine_step\<^sup>*\<^sup>* ex_settled ?s'"
    using e2 by (rule r_into_rtranclp)
  have i: "(0::nat) < length (epl_matches ex_settled)" by (simp add: ex_settled_def)
  have c: "Calculated (epl_matches ex_settled ! 0)" by (simp add: ex_settled_def)
  have r: "Result (epl_matches ex_settled ! 0) = Some ''home''" by (simp add: ex_settled_def)
  have o: "HomeOdds (epl_matches ?s' ! 0) = Some 220"
    by (simp add: sync_defs ex_settled_def ex_defs ex_odds_event_def ex_outcomes_def Let_def)
  note t = settled_terminal [OF c0 d0 r1]
  from t have a: "settled_consistent ex_settled" by (rule conjunct1)
  from t have b: "\<forall>s'. engine_step\<^sup>*\<^sup>* ex_settled s' \<longrightarrow>
            (\<forall>i < length (epl_matches ex_settled). Calculated (epl_matches ex_settled ! i) \<longrightarrow>
               i < length (epl_matches s') \<and>
               APIID (epl_matches s' ! i) = APIID (epl_matches ex_settled ! i) \<and>
               Calculated (epl_matches s' ! i) \<and>
               Result (epl_matches s' ! i) = Result (epl_matches ex_settled ! i))"
    by (rule conjunct2)
  note b1 = b [THEN spec, of ?s', THEN mp, OF r2, THEN spec, of 0, THEN mp, OF i, THEN mp, OF c]
  from b1 have k1: "Calculated (epl_matches ?s' ! 0)" by (elim conjE)
  from b1 r have k2: "Result (epl_matches ?s' ! 0) = Some ''home''" by (elim conjE) (rule trans)
  show ?thesis
    using c0 d0 r1 a r2 i c r o k1 k2 by (intro conjI)
qed

section \<open>Merge\<close>

text \<open>
  Claim C4. A merge-update that succeeds writes each nullable field of the stored
  match (home, draw and away odds, home and away score) only when the incoming
  value is not null: a null incoming field keeps the stored value, so an incoming
  fact whose odds are all null leaves the stored odds as they were, and a non-null
  incoming value replaces the stored one whatever it was.
\<close>

theorem merge_update_null_skip:
  assumes "UpdateMatchByAPIID apiID incoming s = (Inr m, s')"
    and "i < length (epl_matches s)" and "APIID (epl_matches s ! i) = apiID"
  shows "HomeOdds (epl_matches s' ! i) =
           (if HomeOdds incoming = None then HomeOdds (epl_matches s ! i) else HomeOdds incoming) \<and>
         DrawOdds (epl_matches s' ! i) =
           (if DrawOdds incoming = None then DrawOdds (epl_matches s ! i) else DrawOdds incoming) \<and>
         AwayOdds (epl_matches s' ! i) =
           (if AwayOdds incoming = None then AwayOdds (epl_matches s ! i) else AwayOdds incoming) \<and>
         HomeScore (epl_matches s' ! i) =
           (if HomeScore incoming = None then HomeScore (epl_matches s ! i) else HomeScore incoming) \<and>
         AwayScore (epl_matches s' ! i) =
           (if AwayScore incoming = None then AwayScore (epl_matches s ! i) else AwayScore incoming)"
proof -
  from UpdateMatch_ok [OF assms(1)] assms(2,3)
  have "epl_matches s' ! i = merge_row incoming (epl_matches s ! i)" by simp
  then show ?thesis by (simp add: merge_row_def split: option.splits)
qed

theorem merge_update_null_skip_witness:
  "UpdateMatchByAPIID ''m1''
     ((empty_match ''m1'' [] [] 0 False)\<lparr>HomeOdds := Some 250\<rparr>) (ex_store []) =
     (Inr (ex_match\<lparr>HomeOdds := Some 250, Completed := False\<rparr>),
      (ex_store [])\<lparr>epl_matches := [ex_match\<lparr>HomeOdds := Some 250, Completed := False\<rparr>]\<rparr>) \<and>
   (0::nat) < length (epl_matches (ex_store [])) \<and>
   APIID (epl_matches (ex_store []) ! 0) = ''m1'' \<and>
   HomeOdds (ex_match\<lparr>HomeOdds := Some 250, Completed := False\<rparr>) = Some 250 \<and>
   DrawOdds (ex_match\<lparr>HomeOdds := Some 250, Completed := False\<rparr>) = Some 330 \<and>
   AwayOdds (ex_match\<lparr>HomeOdds := Some 250, Completed := False\<rparr>) = Some 350 \<and>
   HomeScore (ex_match\<lparr>HomeOdds := Some 250, Completed := False\<rparr>) = Some 2 \<and>
   AwayScore (ex_match\<lparr>HomeOdds := Some 250, Completed := False\<rparr>) = Some 1"
proof -
  have run: "UpdateMatchByAPIID ''m1''
     ((empty_match ''m1'' [] [] 0 False)\<lparr>HomeOdds := Some 250\<rparr>) (ex_store []) =
     (Inr (ex_match\<lparr>HomeOdds := Some 250, Completed := False\<rparr>),
      (ex_store [])\<lparr>epl_matches := [ex_match\<lparr>HomeOdds := Some 250, Completed := False\<rparr>]\<rparr>)"
    by (simp add: sync_defs ex_defs Let_def)
  have i: "(0::nat) < length (epl_matches (ex_store []))" by (simp add: ex_store_def)
  have a: "APIID (epl_matches (ex_store []) ! 0) = ''m1''" by (simp add: ex_defs)
  from merge_update_null_skip [OF run i a] run i a show ?thesis
    by (simp add: ex_defs empty_match_def)
qed

text \<open>
  Claim C5 as stated fails: a stored match that is completed is merged with an
  odds-flavored fact by the odds sync, and its \<open>completed\<close> flag is \<open>false\<close> afterwards.
\<close>

theorem odds_merge_completed_counterexample:
  "Completed (epl_matches (ex_store []) ! 0) \<and>
   \<not> Completed (epl_matches (snd (oddsSyncHandler ''key''
        (Reply 200 [Decodes (ex_odds_event ex_outcomes)]) (ex_store []))) ! 0)"
  by (simp add: sync_defs ex_defs ex_odds_event_def ex_outcomes_def Let_def)

text \<open>
  Claim C5, amended. A merge-update sets \<open>completed\<close> to the value the incoming fact
  carries, whichever pipeline it comes from: an odds-flavored fact always carries
  \<open>false\<close>, so an odds sync that updates a stored match sets its flag to \<open>false\<close>;
  a scores sync that updates a stored match sets it to the feed's value.
\<close>

theorem merge_update_completed:
  assumes "i < length (epl_matches s)"
  shows "(odds_sync_event e (res, s) = (res', s') \<and> updated res' = updated res + 1 \<and>
            APIID (epl_matches s ! i) = oe_ID e
          \<longrightarrow> Completed (epl_matches s' ! i) = False) \<and>
         (scores_sync_event ev (sres, s) = (sres', s'') \<and> sr_updated sres' = sr_updated sres + 1 \<and>
            APIID (epl_matches s ! i) = sc_ID ev
          \<longrightarrow> Completed (epl_matches s'' ! i) = sc_Completed ev)"
proof (intro conjI impI; elim conjE)
  assume run: "odds_sync_event e (res, s) = (res', s')" and up: "updated res' = updated res + 1"
    and id: "APIID (epl_matches s ! i) = oe_ID e"
  obtain r s1 where g: "GetMatchByAPIID (oe_ID e) s = (r, s1)"
    by (cases "GetMatchByAPIID (oe_ID e) s")
  from run up g obtain existing where r: "r = Inr existing"
    by (cases r) (auto simp: odds_sync_event_def Let_def processOddsEvent_fields
                       split: if_splits prod.splits sum.splits)
  let ?m1 = "(processOddsEvent e)
                    \<lparr> HomeOdds := (if HomeOdds (processOddsEvent e) = None then HomeOdds existing
                                   else HomeOdds (processOddsEvent e)),
                      DrawOdds := (if DrawOdds (processOddsEvent e) = None then DrawOdds existing
                                   else DrawOdds (processOddsEvent e)),
                      AwayOdds := (if AwayOdds (processOddsEvent e) = None then AwayOdds existing
                                   else AwayOdds (processOddsEvent e)) \<rparr>"
  from run up g r obtain m where u: "UpdateMatchByAPIID (oe_ID e) ?m1 s1 = (Inr m, s')"
    by (auto simp: odds_sync_event_def Let_def processOddsEvent_fields
             split: prod.splits sum.splits)
  from UpdateMatch_ok [OF u] GetMatch_tables [OF g] assms id
  have "epl_matches s' ! i = merge_row ?m1 (epl_matches s ! i)" by simp
  then show "Completed (epl_matches s' ! i) = False"
    by (simp add: merge_row_def processOddsEvent_fields)
next
  assume run: "scores_sync_event ev (sres, s) = (sres', s'')"
    and up: "sr_updated sres' = sr_updated sres + 1"
    and id: "APIID (epl_matches s ! i) = sc_ID ev"
  obtain r s1 where g: "GetMatchByAPIID (sc_ID ev) s = (r, s1)"
    by (cases "GetMatchByAPIID (sc_ID ev) s")
  from run up g obtain existing where r: "r = Inr existing"
    by (cases r) (auto simp: scores_sync_event_def Let_def processScoreEvent_fields
                       split: if_splits prod.splits sum.splits)
  let ?m1 = "(processScoreEvent ev)
                    \<lparr> HomeOdds := HomeOdds existing,
                      DrawOdds := DrawOdds existing,
                      AwayOdds := AwayOdds existing \<rparr>"
  from run up g r obtain m where u: "UpdateMatchByAPIID (sc_ID ev) ?m1 s1 = (Inr m, s'')"
    by (auto simp: scores_sync_event_def Let_def processScoreEvent_fields
             split: prod.splits sum.splits)
  from UpdateMatch_ok [OF u] GetMatch_tables [OF g] assms id
  have "epl_matches s'' ! i = merge_row ?m1 (epl_matches s ! i)" by simp
  then show "Completed (epl_matches s'' ! i) = sc_Completed ev"
    by (simp add: merge_row_def processScoreEvent_fields)
qed

theorem merge_update_completed_witness:
  "(0::nat) < length (epl_matches (ex_store [])) \<and>
   updated (fst (odds_sync_event (ex_odds_event ex_outcomes)
       (\<lparr>created = 0, updated = 0, skipped = 0\<rparr>, ex_store []))) = 0 + 1 \<and>
   APIID (epl_matches (ex_store []) ! 0) = oe_ID (ex_odds_event ex_outcomes) \<and>
   Completed (epl_matches (ex_store []) ! 0) = True \<and>
   Completed (epl_matches (snd (odds_sync_event (ex_odds_event ex_outcomes)
       (\<lparr>created = 0, updated = 0, skipped = 0\<rparr>, ex_store []))) ! 0) = False \<and>
   sr_updated (fst (scores_sync_event (ex_score_event True [])
       (\<lparr>sr_created = 0, sr_updated = 0\<rparr>, ex_store []))) = 0 + 1 \<and>
   APIID (epl_matches (ex_store []) ! 0) = sc_ID (ex_score_event True []) \<and>
   Completed (epl_matches (snd (scores_sync_event (ex_score_event True [])
       (\<lparr>sr_created = 0, sr_updated = 0\<rparr>, ex_store []))) ! 0) = sc_Completed (ex_score_event True [])"
proof -
  have i: "(0::nat) < length (epl_matches (ex_store []))" by (simp add: ex_store_def)
  have a: "updated (fst (odds_sync_event (ex_odds_event ex_outcomes)
       (\<lparr>created = 0, updated = 0, skipped = 0\<rparr>, ex_store []))) = 0 + 1"
    by (simp add: sync_defs ex_defs ex_odds_event_def ex_outcomes_def Let_def)
  have b: "APIID (epl_matches (ex_store []) ! 0) = oe_ID (ex_odds_event ex_outcomes)"
    by (simp add: ex_defs ex_odds_event_def)
  have c: "sr_updated (fst (scores_sync_event (ex_score_event True [])
       (\<lparr>sr_created = 0, sr_updated = 0\<rparr>, ex_store []))) = 0 + 1"
    by (simp add: sync_defs ex_defs ex_score_event_def Let_def)
  have d: "APIID (epl_matches (ex_store []) ! 0) = sc_ID (ex_score_event True [])"
    by (simp add: ex_defs ex_score_event_def)
  have e: "Completed (epl_matches (ex_store []) ! 0) = True" by (simp add: ex_defs)
  from merge_update_completed [OF i,
      where e = "ex_odds_event ex_outcomes" and res = "\<lparr>created = 0, updated = 0, skipped = 0\<rparr>"
        and res' = "fst (odds_sync_event (ex_odds_event ex_outcomes)
                      (\<lparr>created = 0, updated = 0, skipped = 0\<rparr>, ex_store []))"
        and s' = "snd (odds_sync_event (ex_odds_event ex_outcomes)
                      (\<lparr>created = 0, updated = 0, skipped = 0\<rparr>, ex_store []))"
        and ev = "ex_score_event True []" and sres = "\<lparr>sr_created = 0, sr_updated = 0\<rparr>"
        and sres' = "fst (scores_sync_event (ex_score_event True [])
                      (\<lparr>sr_created = 0, sr_updated = 0\<rparr>, ex_store []))"
        and s'' = "snd (scores_sync_event (ex_score_event True [])
                      (\<lparr>sr_created = 0, sr_updated = 0\<rparr>, ex_store []))"]
    i a b c d e
  show ?thesis by simp
qed

text \<open>
  Claim C8. For a fact whose external id has no stored match: the odds pipeline
  counts the record as skipped and stores nothing when one of the three odds is
  missing, and stores the new match (counting it as created) when all three are
  present and the store does not fail; the scores pipeline, when the store does not
  fail, stores the match the normalizer made of the record (teams, kickoff,
  completed flag, scores), with the three odds null, and counts it as created.
\<close>

theorem create_on_absent:
  assumes "\<forall>r \<in> set (epl_matches s). APIID r \<noteq> oe_ID e"
    and "\<forall>r \<in> set (epl_matches s). APIID r \<noteq> sc_ID ev"
  shows
    "(HomeOdds (processOddsEvent e) = None \<or> DrawOdds (processOddsEvent e) = None \<or>
      AwayOdds (processOddsEvent e) = None \<longrightarrow>
        odds_sync_event e (res, s) = (res\<lparr>skipped := skipped res + 1\<rparr>, snd (store_call s))) \<and>
     (HomeOdds (processOddsEvent e) \<noteq> None \<and> DrawOdds (processOddsEvent e) \<noteq> None \<and>
      AwayOdds (processOddsEvent e) \<noteq> None \<and> faults s = [] \<longrightarrow>
        odds_sync_event e (res, s) =
          (res\<lparr>created := created res + 1\<rparr>,
           s\<lparr>epl_matches := epl_matches s @ [insert_row (processOddsEvent e)]\<rparr>)) \<and>
     (faults s = [] \<longrightarrow>
        scores_sync_event ev (sres, s) =
          (sres\<lparr>sr_created := sr_created sres + 1\<rparr>,
           s\<lparr>epl_matches := epl_matches s @
                [insert_row ((processScoreEvent ev)
                   \<lparr>HomeOdds := None, DrawOdds := None, AwayOdds := None\<rparr>)]\<rparr>) \<and>
        HomeOdds (insert_row ((processScoreEvent ev)
                   \<lparr>HomeOdds := None, DrawOdds := None, AwayOdds := None\<rparr>)) = None \<and>
        DrawOdds (insert_row ((processScoreEvent ev)
                   \<lparr>HomeOdds := None, DrawOdds := None, AwayOdds := None\<rparr>)) = None \<and>
        AwayOdds (insert_row ((processScoreEvent ev)
                   \<lparr>HomeOdds := None, DrawOdds := None, AwayOdds := None\<rparr>)) = None)"
proof (intro conjI impI)
  assume missing: "HomeOdds (processOddsEvent e) = None \<or> DrawOdds (processOddsEvent e) = None \<or>
      AwayOdds (processOddsEvent e) = None"
  from GetMatch_absent [OF assms(1)] obtain err
    where "GetMatchByAPIID (oe_ID e) s = (Inl err, snd (store_call s))" ..
  with missing
  show "odds_sync_event e (res, s) = (res\<lparr>skipped := skipped res + 1\<rparr>, snd (store_call s))"
    by (auto simp: odds_sync_event_def Let_def processOddsEvent_fields)
next
  assume all3: "HomeOdds (processOddsEvent e) \<noteq> None \<and> DrawOdds (processOddsEvent e) \<noteq> None \<and>
      AwayOdds (processOddsEvent e) \<noteq> None \<and> faults s = []"
  then have nf: "faults s = []" by simp
  from GetMatch_absent [OF assms(1)] obtain err
    where g: "GetMatchByAPIID (oe_ID e) s = (Inl err, snd (store_call s))" ..
  have sc: "snd (store_call s) = s" by (simp add: store_call_nofault [OF nf])
  from assms(1) have ab: "\<forall>r \<in> set (epl_matches s). APIID r \<noteq> APIID (processOddsEvent e)"
    by (simp add: processOddsEvent_fields)
  from g sc all3 UpsertMatch_absent_nofault [OF ab nf]
  show "odds_sync_event e (res, s) =
          (res\<lparr>created := created res + 1\<rparr>,
           s\<lparr>epl_matches := epl_matches s @ [insert_row (processOddsEvent e)]\<rparr>)"
    by (auto simp: odds_sync_event_def Let_def processOddsEvent_fields)
next
  assume nf: "faults s = []"
  let ?m1 = "(processScoreEvent ev)\<lparr>HomeOdds := None, DrawOdds := None, AwayOdds := None\<rparr>"
  from GetMatch_absent [OF assms(2)] obtain err
    where g: "GetMatchByAPIID (sc_ID ev) s = (Inl err, snd (store_call s))" ..
  have sc: "snd (store_call s) = s" by (simp add: store_call_nofault [OF nf])
  from assms(2) have ab: "\<forall>r \<in> set (epl_matches s). APIID r \<noteq> APIID ?m1"
    by (simp add: processScoreEvent_fields)
  from g sc UpsertMatch_absent_nofault [OF ab nf]
  have run: "scores_sync_event ev (sres, s) =
                 (sres\<lparr>sr_created := sr_created sres + 1\<rparr>,
                  s\<lparr>epl_matches := epl_matches s @ [insert_row ?m1]\<rparr>)"
    by (simp add: scores_sync_event_def Let_def processScoreEvent_fields)
  have odds: "HomeOdds (insert_row ?m1) = None \<and>
      DrawOdds (insert_row ?m1) = None \<and> AwayOdds (insert_row ?m1) = None"
    by (simp add: insert_row_def)
  from run odds show "scores_sync_event ev (sres, s) =
          (sres\<lparr>sr_created := sr_created sres + 1\<rparr>,
           s\<lparr>epl_matches := epl_matches s @ [insert_row ?m1]\<rparr>)"
    "HomeOdds (insert_row ?m1) = None" "DrawOdds (insert_row ?m1) = None"
    "AwayOdds (insert_row ?m1) = None"
    by simp_all
qed

theorem create_on_absent_witness:
  "epl_matches empty_store = [] \<and>
   faults empty_store = [] \<and>
   HomeOdds (processOddsEvent (ex_odds_event [])) = None \<and>
   odds_sync_event (ex_odds_event []) (\<lparr>created = 0, updated = 0, skipped = 0\<rparr>, empty_store) =
     (\<lparr>created = 0, updated = 0, skipped = 1\<rparr>, empty_store) \<and>
   HomeOdds (processOddsEvent (ex_odds_event ex_outcomes)) = Some 220 \<and>
   DrawOdds (processOddsEvent (ex_odds_event ex_outcomes)) = Some 330 \<and>
   AwayOdds (processOddsEvent (ex_odds_event ex_outcomes)) = Some 340 \<and>
   odds_sync_event (ex_odds_event ex_outcomes)
       (\<lparr>created = 0, updated = 0, skipped = 0\<rparr>, empty_store) =
     (\<lparr>created = 1, updated = 0, skipped = 0\<rparr>,
      empty_store\<lparr>epl_matches :=
        [\<lparr>APIID = ''m1'', HomeTeam = ''Arsenal'', AwayTeam = ''Chelsea'', CommenceTime = 100,
          HomeOdds = Some 220, DrawOdds = Some 330, AwayOdds = Some 340, Completed = False,
          HomeScore = Some (- 1), AwayScore = Some (- 1), Calculated = False,
          Result = None\<rparr>]\<rparr>) \<and>
   scores_sync_event (ex_score_event True
        [\<lparr>se_Name = ''Arsenal'', se_Score = ''2''\<rparr>, \<lparr>se_Name = ''Chelsea'', se_Score = ''1''\<rparr>])
       (\<lparr>sr_created = 0, sr_updated = 0\<rparr>, empty_store) =
     (\<lparr>sr_created = 1, sr_updated = 0\<rparr>,
      empty_store\<lparr>epl_matches :=
        [\<lparr>APIID = ''m1'', HomeTeam = ''Arsenal'', AwayTeam = ''Chelsea'', CommenceTime = 100,
          HomeOdds = None, DrawOdds = None, AwayOdds = None, Completed = True,
          HomeScore = Some 2, AwayScore = Some 1, Calculated = False, Result = None\<rparr>]\<rparr>)"
proof -
  have a1: "\<forall>r \<in> set (epl_matches empty_store). APIID r \<noteq> oe_ID (ex_odds_event [])"
    and a2: "\<forall>r \<in> set (epl_matches empty_store). APIID r \<noteq> oe_ID (ex_odds_event ex_outcomes)"
    and a3: "\<forall>r \<in> set (epl_matches empty_store). APIID r \<noteq> sc_ID (ex_score_event True
        [\<lparr>se_Name = ''Arsenal'', se_Score = ''2''\<rparr>, \<lparr>se_Name = ''Chelsea'', se_Score = ''1''\<rparr>])"
    by (simp_all add: empty_store_def)
  have nf: "faults empty_store = []" by (simp add: empty_store_def)
  have sc: "snd (store_call empty_store) = empty_store"
    by (simp add: store_call_nofault [OF nf])
  have none: "HomeOdds (processOddsEvent (ex_odds_event [])) = None"
    by (simp add: processOddsEvent_def ex_odds_event_def empty_match_def)
  have all3: "HomeOdds (processOddsEvent (ex_odds_event ex_outcomes)) = Some 220"
    "DrawOdds (processOddsEvent (ex_odds_event ex_outcomes)) = Some 330"
    "AwayOdds (processOddsEvent (ex_odds_event ex_outcomes)) = Some 340"
    by (simp_all add: processOddsEvent_def ex_odds_event_def ex_outcomes_def empty_match_def
          odds_outcome_def)
  have row: "insert_row (processOddsEvent (ex_odds_event ex_outcomes)) =
      \<lparr>APIID = ''m1'', HomeTeam = ''Arsenal'', AwayTeam = ''Chelsea'', CommenceTime = 100,
          HomeOdds = Some 220, DrawOdds = Some 330, AwayOdds = Some 340, Completed = False,
          HomeScore = Some (- 1), AwayScore = Some (- 1), Calculated = False,
          Result = None\<rparr>"
    by (simp add: insert_row_def processOddsEvent_def ex_odds_event_def ex_outcomes_def
          empty_match_def odds_outcome_def)
  note t1 = create_on_absent [OF a1 a3,
      where res = "\<lparr>created = 0, updated = 0, skipped = 0\<rparr>"
        and sres = "\<lparr>sr_created = 0, sr_updated = 0\<rparr>"]
  note t2 = create_on_absent [OF a2 a3,
      where res = "\<lparr>created = 0, updated = 0, skipped = 0\<rparr>"
        and sres = "\<lparr>sr_created = 0, sr_updated = 0\<rparr>"]
  from t1 none sc
  have skip: "odds_sync_event (ex_odds_event []) (\<lparr>created = 0, updated = 0, skipped = 0\<rparr>, empty_store) =
     (\<lparr>created = 0, updated = 0, skipped = 1\<rparr>, empty_store)"
    by simp
  from t2 all3 nf row
  have crea: "odds_sync_event (ex_odds_event ex_outcomes)
       (\<lparr>created = 0, updated = 0, skipped = 0\<rparr>, empty_store) =
     (\<lparr>created = 1, updated = 0, skipped = 0\<rparr>,
      empty_store\<lparr>epl_matches :=
        [\<lparr>APIID = ''m1'', HomeTeam = ''Arsenal'', AwayTeam = ''Chelsea'', CommenceTime = 100,
          HomeOdds = Some 220, DrawOdds = Some 330, AwayOdds = Some 340, Completed = False,
          HomeScore = Some (- 1), AwayScore = Some (- 1), Calculated = False,
          Result = None\<rparr>]\<rparr>)"
    by (simp add: empty_store_def)
  have srow: "insert_row ((processScoreEvent (ex_score_event True
        [\<lparr>se_Name = ''Arsenal'', se_Score = ''2''\<rparr>, \<lparr>se_Name = ''Chelsea'', se_Score = ''1''\<rparr>]))
                 \<lparr>HomeOdds := None, DrawOdds := None, AwayOdds := None\<rparr>) =
      \<lparr>APIID = ''m1'', HomeTeam = ''Arsenal'', AwayTeam = ''Chelsea'', CommenceTime = 100,
          HomeOdds = None, DrawOdds = None, AwayOdds = None, Completed = True,
          HomeScore = Some 2, AwayScore = Some 1, Calculated = False, Result = None\<rparr>"
    by (simp add: insert_row_def processScoreEvent_def ex_score_event_def empty_match_def
          score_entry_def Atoi_def digit_val_def)
  from t2 nf srow
  have sco: "scores_sync_event (ex_score_event True
        [\<lparr>se_Name = ''Arsenal'', se_Score = ''2''\<rparr>, \<lparr>se_Name = ''Chelsea'', se_Score = ''1''\<rparr>])
       (\<lparr>sr_created = 0, sr_updated = 0\<rparr>, empty_store) =
     (\<lparr>sr_created = 1, sr_updated = 0\<rparr>,
      empty_store\<lparr>epl_matches :=
        [\<lparr>APIID = ''m1'', HomeTeam = ''Arsenal'', AwayTeam = ''Chelsea'', CommenceTime = 100,
          HomeOdds = None, DrawOdds = None, AwayOdds = None, Completed = True,
          HomeScore = Some 2, AwayScore = Some 1, Calculated = False, Result = None\<rparr>]\<rparr>)"
    by (simp add: empty_store_def)
  have em: "epl_matches empty_store = []" by (simp add: empty_store_def)
  from em nf none skip all3 crea sco show ?thesis
    by simp
qed

section \<open>Feed batches and the normalizer\<close>

text \<open>
  Claim C9 as stated fails: a batch of one record that does not decode and nine
  records that do makes the fetch fail; the odds sync returns the error and
  stores nothing.
\<close>

theorem batch_resilience_counterexample:
  "length (filter (\<lambda>r. r = Malformed) ex_batch) = 1 \<and>
   length (filter (\<lambda>r. r \<noteq> Malformed) ex_batch) = 9 \<and>
   fst (oddsSyncHandler ''key'' (Reply 200 (filter (\<lambda>r. r \<noteq> Malformed) ex_batch)) empty_store) =
     Inr \<lparr>created = 9, updated = 0, skipped = 0\<rparr> \<and>
   oddsSyncHandler ''key'' (Reply 200 ex_batch) empty_store = (Inl DecodeError, empty_store) \<and>
   epl_matches empty_store = []"
  by (simp add: ex_batch_def sync_defs ex_odds_event_def ex_outcomes_def empty_store_def Let_def)

text \<open>
  Claim C9, amended. In the odds sync and in the scores sync alike, a record that the
  decoder refuses (an unparseable timestamp, for one) fails the whole fetch: the
  sync returns an error and no record of the batch is upserted. When every record
  decodes, the sync does not fail as a whole: it returns the counters of the loop
  over the records, and a record that the loop leaves out of every counter has
  changed no table, the records after it being processed from there.
\<close>

theorem batch_decode:
  assumes "apiKey \<noteq> []"
  shows "(Malformed \<in> set body \<longrightarrow>
            oddsSyncHandler apiKey (Reply 200 body) s = (Inl DecodeError, s)) \<and>
         (Malformed \<notin> set body \<longrightarrow>
            (\<exists>events. map Decodes events = body \<and>
               oddsSyncHandler apiKey (Reply 200 body) s =
                 (Inr (fst (fold odds_sync_event events
                              (\<lparr>created = 0, updated = 0, skipped = 0\<rparr>, s))),
                  snd (fold odds_sync_event events
                              (\<lparr>created = 0, updated = 0, skipped = 0\<rparr>, s))))) \<and>
         (odds_sync_event e (res, t) = (res, t') \<longrightarrow>
            epl_matches t' = epl_matches t \<and> bets t' = bets t \<and> users t' = users t) \<and>
         (Malformed \<in> set sbody \<longrightarrow>
            scoresSyncHandler apiKey (Reply 200 sbody) s = (Inl DecodeError, s)) \<and>
         (Malformed \<notin> set sbody \<longrightarrow>
            (\<exists>scores. map Decodes scores = sbody \<and>
               scoresSyncHandler apiKey (Reply 200 sbody) s =
                 (Inr (fst (fold scores_sync_event scores
                              (\<lparr>sr_created = 0, sr_updated = 0\<rparr>, s))),
                  snd (fold scores_sync_event scores
                              (\<lparr>sr_created = 0, sr_updated = 0\<rparr>, s))))) \<and>
         (scores_sync_event ev (sres, u) = (sres, u') \<longrightarrow>
            epl_matches u' = epl_matches u \<and> bets u' = bets u \<and> users u' = users u)"
proof (intro conjI impI)
  assume "Malformed \<in> set body"
  from decode_events_malformed [OF this] assms
  show "oddsSyncHandler apiKey (Reply 200 body) s = (Inl DecodeError, s)"
    by (simp add: oddsSyncHandler_def fetchOddsFromAPI_def fetch_events_def)
next
  assume "Malformed \<notin> set body"
  from decode_events_all [OF this] obtain events
    where ev: "map Decodes events = body" "decode_events body = Some events" by blast
  from ev(2) assms
  have "oddsSyncHandler apiKey (Reply 200 body) s =
                 (Inr (fst (fold odds_sync_event events
                              (\<lparr>created = 0, updated = 0, skipped = 0\<rparr>, s))),
                  snd (fold odds_sync_event events
                              (\<lparr>created = 0, updated = 0, skipped = 0\<rparr>, s)))"
    by (simp add: oddsSyncHandler_def fetchOddsFromAPI_def fetch_events_def split: prod.splits)
  with ev(1) show "\<exists>events. map Decodes events = body \<and>
               oddsSyncHandler apiKey (Reply 200 body) s =
                 (Inr (fst (fold odds_sync_event events
                              (\<lparr>created = 0, updated = 0, skipped = 0\<rparr>, s))),
                  snd (fold odds_sync_event events
                              (\<lparr>created = 0, updated = 0, skipped = 0\<rparr>, s)))"
    by blast
next
  assume run: "odds_sync_event e (res, t) = (res, t')"
  have ne: "res \<noteq> res\<lparr>skipped := skipped res + 1\<rparr>" "res \<noteq> res\<lparr>updated := updated res + 1\<rparr>"
    "res \<noteq> res\<lparr>created := created res + 1\<rparr>"
    by (cases res; simp)+
  from odds_sync_event_cases [OF run] ne
  show "epl_matches t' = epl_matches t" "bets t' = bets t" "users t' = users t"
    by auto
next
  assume "Malformed \<in> set sbody"
  from decode_events_malformed [OF this] assms
  show "scoresSyncHandler apiKey (Reply 200 sbody) s = (Inl DecodeError, s)"
    by (simp add: scoresSyncHandler_def fetchScoresFromAPI_def fetch_events_def)
next
  assume "Malformed \<notin> set sbody"
  from decode_events_all [OF this] obtain scores
    where sc: "map Decodes scores = sbody" "decode_events sbody = Some scores" by blast
  from sc(2) assms
  have "scoresSyncHandler apiKey (Reply 200 sbody) s =
                 (Inr (fst (fold scores_sync_event scores
                              (\<lparr>sr_created = 0, sr_updated = 0\<rparr>, s))),
                  snd (fold scores_sync_event scores
                              (\<lparr>sr_created = 0, sr_updated = 0\<rparr>, s)))"
    by (simp add: scoresSyncHandler_def fetchScoresFromAPI_def fetch_events_def
          split: prod.splits)
  with sc(1) show "\<exists>scores. map Decodes scores = sbody \<and>
               scoresSyncHandler apiKey (Reply 200 sbody) s =
                 (Inr (fst (fold scores_sync_event scores
                              (\<lparr>sr_created = 0, sr_updated = 0\<rparr>, s))),
                  snd (fold scores_sync_event scores
                              (\<lparr>sr_created = 0, sr_updated = 0\<rparr>, s)))"
    by blast
next
  assume run: "scores_sync_event ev (sres, u) = (sres, u')"
  from scores_sync_event_left_out [OF run]
  show "epl_matches u' = epl_matches u" "bets u' = bets u" "users u' = users u"
    by simp_all
qed

theorem batch_decode_witness:
  "''key'' \<noteq> [] \<and>
   Malformed \<in> set [Malformed, Decodes (ex_odds_event ex_outcomes)] \<and>
   oddsSyncHandler ''key'' (Reply 200 [Malformed, Decodes (ex_odds_event ex_outcomes)])
     (ex_store []) = (Inl DecodeError, ex_store []) \<and>
   Malformed \<notin> set [Decodes (ex_odds_event ex_outcomes)] \<and>
   (\<exists>events. map Decodes events = [Decodes (ex_odds_event ex_outcomes)] \<and>
      oddsSyncHandler ''key'' (Reply 200 [Decodes (ex_odds_event ex_outcomes)]) (ex_store []) =
        (Inr (fst (fold odds_sync_event events
                     (\<lparr>created = 0, updated = 0, skipped = 0\<rparr>, ex_store []))),
         snd (fold odds_sync_event events
                     (\<lparr>created = 0, updated = 0, skipped = 0\<rparr>, ex_store [])))) \<and>
   odds_sync_event (ex_odds_event ex_outcomes)
       (\<lparr>created = 0, updated = 0, skipped = 0\<rparr>, ex_store [False, True]) =
     (\<lparr>created = 0, updated = 0, skipped = 0\<rparr>, ex_store []) \<and>
   Malformed \<in> set [Decodes (ex_score_event True []), Malformed] \<and>
   scoresSyncHandler ''key'' (Reply 200 [Decodes (ex_score_event True []), Malformed])
     (ex_store []) = (Inl DecodeError, ex_store []) \<and>
   Malformed \<notin> set [Decodes (ex_score_event True [])] \<and>
   (\<exists>scores. map Decodes scores = [Decodes (ex_score_event True [])] \<and>
      scoresSyncHandler ''key'' (Reply 200 [Decodes (ex_score_event True [])]) (ex_store []) =
        (Inr (fst (fold scores_sync_event scores
                     (\<lparr>sr_created = 0, sr_updated = 0\<rparr>, ex_store []))),
         snd (fold scores_sync_event scores
                     (\<lparr>sr_created = 0, sr_updated = 0\<rparr>, ex_store [])))) \<and>
   scores_sync_event (ex_score_event True [])
       (\<lparr>sr_created = 0, sr_updated = 0\<rparr>, ex_store [False, True]) =
     (\<lparr>sr_created = 0, sr_updated = 0\<rparr>, ex_store []) \<and>
   epl_matches (ex_store []) = epl_matches (ex_store [False, True]) \<and>
   bets (ex_store []) = bets (ex_store [False, True]) \<and>
   users (ex_store []) = users (ex_store [False, True])"
proof -
  have k: "''key'' \<noteq> []" by simp
  have m: "Malformed \<in> set [Malformed, Decodes (ex_odds_event ex_outcomes)]" by simp
  have n: "Malformed \<notin> set [Decodes (ex_odds_event ex_outcomes)]" by simp
  have sm: "Malformed \<in> set [Decodes (ex_score_event True []), Malformed]" by simp
  have sn: "Malformed \<notin> set [Decodes (ex_score_event True [])]" by simp
  have f: "odds_sync_event (ex_odds_event ex_outcomes)
       (\<lparr>created = 0, updated = 0, skipped = 0\<rparr>, ex_store [False, True]) =
     (\<lparr>created = 0, updated = 0, skipped = 0\<rparr>, ex_store [])"
    by (simp add: sync_defs ex_defs ex_odds_event_def ex_outcomes_def Let_def)
  have sf: "scores_sync_event (ex_score_event True [])
       (\<lparr>sr_created = 0, sr_updated = 0\<rparr>, ex_store [False, True]) =
     (\<lparr>sr_created = 0, sr_updated = 0\<rparr>, ex_store [])"
    by (simp add: sync_defs ex_defs ex_score_event_def Let_def)
  note t1 = batch_decode [OF k, where body = "[Malformed, Decodes (ex_odds_event ex_outcomes)]"
      and s = "ex_store []" and e = "ex_odds_event ex_outcomes"
      and res = "\<lparr>created = 0, updated = 0, skipped = 0\<rparr>" and t = "ex_store [False, True]"
      and t' = "ex_store []"
      and sbody = "[Decodes (ex_score_event True []), Malformed]"
      and ev = "ex_score_event True []" and sres = "\<lparr>sr_created = 0, sr_updated = 0\<rparr>"
      and u = "ex_store [False, True]" and u' = "ex_store []"]
  note t2 = batch_decode [OF k, where body = "[Decodes (ex_odds_event ex_outcomes)]"
      and s = "ex_store []" and e = "ex_odds_event ex_outcomes"
      and res = "\<lparr>created = 0, updated = 0, skipped = 0\<rparr>" and t = "ex_store [False, True]"
      and t' = "ex_store []"
      and sbody = "[Decodes (ex_score_event True [])]"
      and ev = "ex_score_event True []" and sres = "\<lparr>sr_created = 0, sr_updated = 0\<rparr>"
      and u = "ex_store [False, True]" and u' = "ex_store []"]
  note a = t1 [THEN conjunct1, THEN mp, OF m]
  note b = t2 [THEN conjunct2, THEN conjunct1, THEN mp, OF n]
  note c = t1 [THEN conjunct2, THEN conjunct2, THEN conjunct1, THEN mp, OF f]
  note sa = t1 [THEN conjunct2, THEN conjunct2, THEN conjunct2, THEN conjunct1, THEN mp, OF sm]
  note sb = t2 [THEN conjunct2, THEN conjunct2, THEN conjunct2, THEN conjunct2, THEN conjunct1,
                THEN mp, OF sn]
  note sc = t1 [THEN conjunct2, THEN conjunct2, THEN conjunct2, THEN conjunct2, THEN conjunct2,
                THEN mp, OF sf]
  note c1 = c [THEN conjunct1]
  note c2 = c [THEN conjunct2, THEN conjunct1]
  note c3 = c [THEN conjunct2, THEN conjunct2]
  show ?thesis
    using k m a n b f sm sa sn sb sf c1 c2 c3 by (intro conjI)
qed



end
